theory Spec2Isabelle
  imports
    Complex_Main
    "HOL-Library.Multiset"
    "HOL-Library.Sublist"
    "HOL-Library.Char_ord"
    "HOL-Library.List_Lexorder"
begin

section \<open>Python lists: slices and sorting\<close>

text \<open>
  The two pruning routines of \<^verbatim>\<open>send-to-google-drive.py\<close> pick their victims with a
  Python slice of a sorted list.  A slice bound may be negative (it then counts from the
  end of the list) and is clamped to the list, so a slice never raises.
  \<^verbatim>\<open>xs[:j]\<close> is \<open>py_slice_to xs j\<close> and \<^verbatim>\<open>xs[i:]\<close> is \<open>py_slice_from xs i\<close>.
\<close>

definition py_bound :: "nat \<Rightarrow> int \<Rightarrow> nat" where
  "py_bound n i = (if i < 0 then nat (max 0 (int n + i)) else min (nat i) n)"

definition py_slice_to :: "'a list \<Rightarrow> int \<Rightarrow> 'a list" where
  "py_slice_to xs j = take (py_bound (length xs) j) xs"

definition py_slice_from :: "'a list \<Rightarrow> int \<Rightarrow> 'a list" where
  "py_slice_from xs i = drop (py_bound (length xs) i) xs"

text \<open>
  \<^verbatim>\<open>list.sort(key=f)\<close> is a stable ascending sort: \<open>sort_key f\<close>.
  \<^verbatim>\<open>list.sort(key=f, reverse=True)\<close> keeps the original order of elements with equal
  keys as well; CPython reverses the list, sorts it and reverses it again.
\<close>

definition py_sort :: "('a \<Rightarrow> 'k::linorder) \<Rightarrow> 'a list \<Rightarrow> 'a list" where
  "py_sort f xs = sort_key f xs"

definition py_sort_reverse :: "('a \<Rightarrow> 'k::linorder) \<Rightarrow> 'a list \<Rightarrow> 'a list" where
  "py_sort_reverse f xs = rev (sort_key f (rev xs))"

section \<open>Retention: which entries a pruning pass deletes\<close>

text \<open>
  A Drive folder as the listing request returns it: the fields \<^verbatim>\<open>id\<close>, \<^verbatim>\<open>name\<close> and
  \<^verbatim>\<open>createdTime\<close>, the last one an RFC 3339 string that Python compares as a string.
\<close>

record drive_entry =
  entry_id :: string
  entry_name :: string
  createdTime :: string

text \<open>
  \<^verbatim>\<open>delete_old_backups_by_count\<close>, lines 180 and 181:
  \<^verbatim>\<open>files.sort(key=lambda f: f["createdTime"]); to_delete = files[:-self.drive_keep]\<close>.
\<close>

definition select_remote :: "drive_entry list \<Rightarrow> int \<Rightarrow> drive_entry list" where
  "select_remote files drive_keep = py_slice_to (py_sort createdTime files) (- drive_keep)"

text \<open>
  \<^verbatim>\<open>clean_local_backups\<close>, lines 161 and 162:
  \<^verbatim>\<open>subs.sort(key=lambda p: os.path.getctime(p), reverse=True); to_remove = subs[self.local_keep:]\<close>.
  The creation times are read from the file system, here the function \<open>getctime\<close>.
  A path is the list of its components: \<^verbatim>\<open>os.path.join(root, d)\<close> is \<open>root @ [d]\<close>.
\<close>

type_synonym path = "string list"

definition select_local :: "(path \<Rightarrow> real) \<Rightarrow> path list \<Rightarrow> int \<Rightarrow> path list" where
  "select_local getctime subs local_keep = py_slice_from (py_sort_reverse getctime subs) local_keep"

section \<open>Naming: the time stamp of a cycle\<close>

text \<open>
  A \<^verbatim>\<open>datetime\<close> value, down to the second.  Python builds only valid values
  (\<open>valid_datetime\<close>); \<^verbatim>\<open>weekday()\<close> is computed from the date as \<^verbatim>\<open>datetime.py\<close> does,
  through the proleptic Gregorian ordinal, with Monday as 0.
\<close>

record datetime =
  year :: nat
  month :: nat
  day :: nat
  hour :: nat
  minute :: nat
  second :: nat

definition is_leap :: "nat \<Rightarrow> bool" where
  "is_leap y = (y mod 4 = 0 \<and> (y mod 100 \<noteq> 0 \<or> y mod 400 = 0))"

definition days_in_month :: "nat \<Rightarrow> nat \<Rightarrow> nat" where
  "days_in_month y m =
     (if m = 2 \<and> is_leap y then 29
      else [31, 28, 31, 30, 31, 30, 31, 31, 30, 31, 30, 31] ! (m - 1))"

definition days_before_year :: "nat \<Rightarrow> nat" where
  "days_before_year y =
     (y - 1) * 365 + (y - 1) div 4 - (y - 1) div 100 + (y - 1) div 400"

definition days_before_month :: "nat \<Rightarrow> nat \<Rightarrow> nat" where
  "days_before_month y m = sum_list (map (days_in_month y) [1..<m])"

definition ymd2ord :: "nat \<Rightarrow> nat \<Rightarrow> nat \<Rightarrow> nat" where
  "ymd2ord y m d = days_before_year y + days_before_month y m + d"

definition weekday :: "datetime \<Rightarrow> nat" where
  "weekday dt = (ymd2ord (year dt) (month dt) (day dt) + 6) mod 7"

definition valid_datetime :: "datetime \<Rightarrow> bool" where
  "valid_datetime dt =
     (1 \<le> year dt \<and> year dt \<le> 9999 \<and> 1 \<le> month dt \<and> month dt \<le> 12
      \<and> 1 \<le> day dt \<and> day dt \<le> days_in_month (year dt) (month dt)
      \<and> hour dt < 24 \<and> minute dt < 60 \<and> second dt < 60)"

text \<open>
  Formatting.  \<open>str_nat\<close> is \<^verbatim>\<open>str(n)\<close> (and the f-string \<^verbatim>\<open>{n}\<close>) for an integer that is
  not negative; \<open>fmt_02d\<close> is the format \<^verbatim>\<open>{n:02d}\<close>, \<open>fmt_04d\<close> the four digits of
  \<^verbatim>\<open>%Y\<close>.  The month and day names hold the Latin-1 letters \<open>0xE9\<close> and \<open>0xFB\<close>.
\<close>

definition digit_char :: "nat \<Rightarrow> char" where
  "digit_char d = ''0123456789'' ! d"

fun str_nat :: "nat \<Rightarrow> string" where
  "str_nat n = (if n < 10 then [digit_char n] else str_nat (n div 10) @ [digit_char (n mod 10)])"

declare str_nat.simps [simp del]

definition zero_pad :: "nat \<Rightarrow> string \<Rightarrow> string" where
  "zero_pad w s = replicate (w - length s) (CHR ''0'') @ s"

definition fmt_02d :: "nat \<Rightarrow> string" where
  "fmt_02d n = zero_pad 2 (str_nat n)"

definition fmt_04d :: "nat \<Rightarrow> string" where
  "fmt_04d n = zero_pad 4 (str_nat n)"

definition jours :: "string list" where
  "jours = [''lundi'', ''mardi'', ''mercredi'', ''jeudi'', ''vendredi'', ''samedi'', ''dimanche'']"

definition mois :: "string list" where
  "mois = [''janvier'', ''f'' @ [CHR 0xE9] @ ''vrier'', ''mars'', ''avril'', ''mai'', ''juin'',
           ''juillet'', ''ao'' @ [CHR 0xFB] @ ''t'', ''septembre'', ''octobre'', ''novembre'',
           ''d'' @ [CHR 0xE9] @ ''cembre'']"

text \<open>
  \<^verbatim>\<open>do_backup\<close>, lines 195 to 201: the name of the local folder, from \<^verbatim>\<open>datetime.now()\<close>.
\<close>

definition local_name :: "datetime \<Rightarrow> string" where
  "local_name now =
     jours ! weekday now @ ''-'' @ fmt_02d (day now) @ ''-'' @ mois ! (month now - 1) @ ''-''
     @ str_nat (year now) @ ''-'' @ fmt_02d (hour now) @ ''h'' @ fmt_02d (minute now)"

text \<open>
  Lines 206 and 207: the name of the archive, from \<^verbatim>\<open>datetime.utcnow()\<close> through
  \<^verbatim>\<open>strftime("%Y%m%d_%H%M%S")\<close>.
\<close>

definition strftime_stamp :: "datetime \<Rightarrow> string" where
  "strftime_stamp utc =
     fmt_04d (year utc) @ fmt_02d (month utc) @ fmt_02d (day utc) @ ''_''
     @ fmt_02d (hour utc) @ fmt_02d (minute utc) @ fmt_02d (second utc)"

definition zip_name :: "string \<Rightarrow> datetime \<Rightarrow> string" where
  "zip_name zip_prefix utc = zip_prefix @ ''_'' @ strftime_stamp utc @ ''.zip''"

text \<open>Line 222: the name of the Drive folder.\<close>

definition drive_folder_name :: "string \<Rightarrow> datetime \<Rightarrow> string" where
  "drive_folder_name nm now =
     nm @ '' '' @ str_nat (day now) @ '' '' @ mois ! (month now - 1) @ '' ''
     @ str_nat (year now) @ '' '' @ str_nat (hour now) @ ''h'' @ fmt_02d (minute now)"

section \<open>Exceptions\<close>

text \<open>
  The exceptions that the modelled calls raise.  All of them are subclasses of
  \<^verbatim>\<open>Exception\<close>, so \<^verbatim>\<open>except Exception\<close> catches every one.  \<open>HttpError\<close> carries the status
  of the Drive response (404 for a file that is not there).
\<close>

datatype exn =
    FileNotFoundError
  | FileExistsError
  | IsADirectoryError
  | NotADirectoryError
  | PermissionError
  | ValueError
  | TypeError
  | OverflowError
  | HttpError nat
  | OtherError string

section \<open>The file system\<close>

text \<open>
  The file system is a tree.  A regular file has a name and its data; a directory has a
  name, its creation time as \<^verbatim>\<open>os.path.getctime\<close> reports it, and its entries in the order
  in which the system lists them.  The data of a file is a string of bytes, or for a ZIP
  archive the list of its members: archive name and stored data.
\<close>

datatype data = Bytes string | Archive "(path \<times> data) list"

datatype node = File string data | Dir string real "node list"

fun node_name :: "node \<Rightarrow> string" where
  "node_name (File f d) = f"
| "node_name (Dir d t cs) = d"

fun is_dir :: "node \<Rightarrow> bool" where
  "is_dir (File f d) = False"
| "is_dir (Dir d t cs) = True"

fun node_data :: "node \<Rightarrow> data" where
  "node_data (File f d) = d"
| "node_data (Dir d t cs) = Bytes []"

fun node_ctime :: "node \<Rightarrow> real" where
  "node_ctime (File f d) = 0"
| "node_ctime (Dir d t cs) = t"

fun lookup :: "node \<Rightarrow> path \<Rightarrow> node option" where
  "lookup n [] = Some n"
| "lookup (File f d) (x # p) = None"
| "lookup (Dir d t cs) (x # p) =
     (case find (\<lambda>c. node_name c = x) cs of None \<Rightarrow> None | Some c \<Rightarrow> lookup c p)"

text \<open>\<open>alter g p fs\<close> rewrites with \<open>g\<close> the entries of the directory at \<open>p\<close>.\<close>

fun alter :: "(node list \<Rightarrow> node list) \<Rightarrow> path \<Rightarrow> node \<Rightarrow> node" where
  "alter g p (File f d) = File f d"
| "alter g [] (Dir d t cs) = Dir d t (g cs)"
| "alter g (x # p) (Dir d t cs) =
     Dir d t (map (\<lambda>c. if node_name c = x then alter g p c else c) cs)"

definition os_path_exists :: "node \<Rightarrow> path \<Rightarrow> bool" where
  "os_path_exists fs p = (lookup fs p \<noteq> None)"

definition os_path_isdir :: "node \<Rightarrow> path \<Rightarrow> bool" where
  "os_path_isdir fs p = (case lookup fs p of Some n \<Rightarrow> is_dir n | None \<Rightarrow> False)"

definition os_path_getctime :: "node \<Rightarrow> path \<Rightarrow> real" where
  "os_path_getctime fs p = (case lookup fs p of Some n \<Rightarrow> node_ctime n | None \<Rightarrow> 0)"

definition os_path_getsize :: "node \<Rightarrow> path \<Rightarrow> exn + unit" where
  "os_path_getsize fs p = (case lookup fs p of Some n \<Rightarrow> Inr () | None \<Rightarrow> Inl FileNotFoundError)"

definition os_listdir :: "node \<Rightarrow> path \<Rightarrow> exn + string list" where
  "os_listdir fs p =
     (case lookup fs p of
        None \<Rightarrow> Inl FileNotFoundError
      | Some (File f d) \<Rightarrow> Inl NotADirectoryError
      | Some (Dir d t cs) \<Rightarrow> Inr (map node_name cs))"

definition remove_entry :: "string \<Rightarrow> node list \<Rightarrow> node list" where
  "remove_entry x cs = filter (\<lambda>c. node_name c \<noteq> x) cs"

definition os_remove :: "node \<Rightarrow> path \<Rightarrow> exn + node" where
  "os_remove fs p =
     (case lookup fs p of
        None \<Rightarrow> Inl FileNotFoundError
      | Some (Dir d t cs) \<Rightarrow> Inl IsADirectoryError
      | Some (File f d) \<Rightarrow>
          if p = [] then Inl IsADirectoryError
          else Inr (alter (remove_entry (last p)) (butlast p) fs))"

text \<open>
  \<^verbatim>\<open>shutil.rmtree(p)\<close> removes the entries of the directory one after the other, the
  sub-directories depth first, then the directory itself, and raises at the first removal
  that fails: what it removed before stays removed.  \<open>bad q\<close> is the exception that the
  removal of the file or directory \<open>q\<close> meets, if any.  \<open>rm_node\<close> and \<open>rm_entries\<close> return
  \<open>None\<close> when everything went, and otherwise the exception with what is left.
\<close>

fun rm_node :: "(path \<Rightarrow> exn option) \<Rightarrow> path \<Rightarrow> node \<Rightarrow> (exn \<times> node) option"
  and rm_entries :: "(path \<Rightarrow> exn option) \<Rightarrow> path \<Rightarrow> node list \<Rightarrow> (exn \<times> node list) option"
where
  "rm_node bad p (File f d) =
     (case bad p of None \<Rightarrow> None | Some ex \<Rightarrow> Some (ex, File f d))"
| "rm_node bad p (Dir d t cs) =
     (case rm_entries bad p cs of
        Some (ex, cs') \<Rightarrow> Some (ex, Dir d t cs')
      | None \<Rightarrow> (case bad p of None \<Rightarrow> None | Some ex \<Rightarrow> Some (ex, Dir d t [])))"
| "rm_entries bad p [] = None"
| "rm_entries bad p (c # cs) =
     (case rm_node bad (p @ [node_name c]) c of
        Some (ex, c') \<Rightarrow> Some (ex, c' # cs)
      | None \<Rightarrow> rm_entries bad p cs)"

definition replace_entry :: "node \<Rightarrow> node list \<Rightarrow> node list" where
  "replace_entry n cs = map (\<lambda>c. if node_name c = node_name n then n else c) cs"

definition shutil_rmtree :: "(path \<Rightarrow> exn option) \<Rightarrow> node \<Rightarrow> path \<Rightarrow> exn option \<times> node" where
  "shutil_rmtree bad fs p =
     (case lookup fs p of
        None \<Rightarrow> (Some FileNotFoundError, fs)
      | Some (File f d) \<Rightarrow> (Some NotADirectoryError, fs)
      | Some (Dir d t cs) \<Rightarrow>
          (case rm_node bad p (Dir d t cs) of
             Some (ex, n') \<Rightarrow>
               (Some ex, if p = [] then n' else alter (replace_entry n') (butlast p) fs)
           | None \<Rightarrow>
               if p = [] then (Some PermissionError, Dir d t [])
               else (None, alter (remove_entry (last p)) (butlast p) fs)))"

text \<open>
  \<^verbatim>\<open>os.makedirs(p, exist_ok=True)\<close> at time \<open>t\<close>: the missing directories along \<open>p\<close> are
  made; a directory that is already there is kept; a regular file at \<open>p\<close> or on the way
  to it raises.
\<close>

fun new_dirs :: "real \<Rightarrow> string \<Rightarrow> path \<Rightarrow> node" where
  "new_dirs t x [] = Dir x t []"
| "new_dirs t x (y # p) = Dir x t [new_dirs t y p]"

fun makedirs :: "real \<Rightarrow> path \<Rightarrow> node \<Rightarrow> exn + node" where
  "makedirs t [] (Dir d ct cs) = Inr (Dir d ct cs)"
| "makedirs t [] (File f d) = Inl FileExistsError"
| "makedirs t (x # p) (File f d) = Inl NotADirectoryError"
| "makedirs t (x # p) (Dir d ct cs) =
     (case find (\<lambda>c. node_name c = x) cs of
        None \<Rightarrow> Inr (Dir d ct (cs @ [new_dirs t x p]))
      | Some c \<Rightarrow>
          (case makedirs t p c of
             Inl e \<Rightarrow> Inl e
           | Inr c' \<Rightarrow> Inr (Dir d ct (map (\<lambda>c. if node_name c = x then c' else c) cs))))"

definition os_makedirs :: "node \<Rightarrow> real \<Rightarrow> path \<Rightarrow> exn + node" where
  "os_makedirs fs t p = makedirs t p fs"

text \<open>
  Opening a file for writing, as \<^verbatim>\<open>zipfile.ZipFile(p, "w")\<close> does, and storing \<open>d\<close> in it:
  the file is made in its directory, or replaced where it stands.
\<close>

definition put_entry :: "node \<Rightarrow> node list \<Rightarrow> node list" where
  "put_entry n cs =
     (if \<exists>c \<in> set cs. node_name c = node_name n
      then map (\<lambda>c. if node_name c = node_name n then n else c) cs
      else cs @ [n])"

definition write_file :: "node \<Rightarrow> path \<Rightarrow> data \<Rightarrow> exn + node" where
  "write_file fs p d =
     (if p = [] then Inl IsADirectoryError
      else case lookup fs (butlast p) of
        None \<Rightarrow> Inl FileNotFoundError
      | Some (File f' d') \<Rightarrow> Inl NotADirectoryError
      | Some (Dir d' t cs) \<Rightarrow>
          if os_path_isdir fs p then Inl IsADirectoryError
          else Inr (alter (put_entry (File (last p) d)) (butlast p) fs))"

text \<open>
  \<open>keeps_dirs_at g n q\<close>: rewriting with \<open>g\<close> the entries of the directory at \<open>q\<close> of the
  tree \<open>n\<close> leaves every sub-directory of it in place.
\<close>

definition keeps_dirs_at :: "(node list \<Rightarrow> node list) \<Rightarrow> node \<Rightarrow> path \<Rightarrow> bool" where
  "keeps_dirs_at g n q =
     (\<forall>d t cs x c. lookup n q = Some (Dir d t cs) \<longrightarrow> find (\<lambda>c. node_name c = x) cs = Some c \<longrightarrow>
        is_dir c \<longrightarrow> find (\<lambda>c. node_name c = x) (g cs) = Some c)"

section \<open>The archiver\<close>

text \<open>
  \<^verbatim>\<open>os.path.relpath(p, start)\<close> on normalised absolute paths: the common prefix is dropped,
  and each remaining component of \<open>start\<close> becomes \<^verbatim>\<open>..\<close>.
\<close>

fun relpath :: "path \<Rightarrow> path \<Rightarrow> path" where
  "relpath [] [] = [''.'']"
| "relpath (x # p) [] = x # p"
| "relpath [] (y # s) = replicate (Suc (length s)) ''..''"
| "relpath (x # p) (y # s) =
     (if x = y then relpath p s else replicate (Suc (length s)) ''..'' @ (x # p))"

text \<open>
  The body of the loop over \<^verbatim>\<open>os.walk(abs_src)\<close>, lines 106 to 115.  For the directory
  \<open>here\<close> (the \<^verbatim>\<open>root\<close> of the loop) with the entries \<open>cs\<close>, \<^verbatim>\<open>os.walk\<close> yields its sub-directories and its other
  entries; the loop drops from the former the names in \<^verbatim>\<open>excluded_folders\<close> (so the walk
  never enters them), then skips each file whose name ends with an excluded extension and
  writes every other one under its path relative to \<open>abs_src\<close>; the walk then goes on in
  the sub-directories that are left.
\<close>

datatype zip_action = Skipped path | Written path data

definition excluded_file :: "string set \<Rightarrow> string \<Rightarrow> bool" where
  "excluded_file exts fname = (\<exists>ext \<in> exts. suffix ext fname)"

definition file_action :: "string set \<Rightarrow> path \<Rightarrow> path \<Rightarrow> node \<Rightarrow> zip_action" where
  "file_action exts abs_src here c =
     (let fname = node_name c; full_path = here @ [fname]
      in if excluded_file exts fname then Skipped full_path
         else Written (relpath full_path abs_src) (node_data c))"

fun zip_walk :: "string set \<Rightarrow> string set \<Rightarrow> path \<Rightarrow> path \<Rightarrow> node \<Rightarrow> zip_action list" where
  "zip_walk folders exts abs_src here (File f d) = []"
| "zip_walk folders exts abs_src here (Dir nm t cs) =
     map (file_action exts abs_src here) (filter (\<lambda>c. \<not> is_dir c) cs)
     @ concat (map (\<lambda>d. zip_walk folders exts abs_src (here @ [node_name d]) d)
         (filter (\<lambda>d. node_name d \<notin> folders) (filter is_dir cs)))"

fun written :: "zip_action list \<Rightarrow> (path \<times> data) list" where
  "written [] = []"
| "written (Skipped p # as) = written as"
| "written (Written arcname d # as) = (arcname, d) # written as"

fun skipped :: "zip_action list \<Rightarrow> path list" where
  "skipped [] = []"
| "skipped (Skipped p # as) = p # skipped as"
| "skipped (Written arcname d # as) = skipped as"

section \<open>Google Drive\<close>

text \<open>
  What the Drive service holds, in the order in which it lists it.  A file has an id, a
  name, a MIME type, its parent folders, the trash flag and the creation time.
\<close>

record drive_file =
  file_id :: string
  file_name :: string
  mimeType :: string
  parents :: "string list"
  trashed :: bool
  file_created :: string

definition folder_mime :: string where
  "folder_mime = ''application/vnd.google-apps.folder''"

definition to_entry :: "drive_file \<Rightarrow> drive_entry" where
  "to_entry f = \<lparr>entry_id = file_id f, entry_name = file_name f, createdTime = file_created f\<rparr>"

text \<open>
  The query of \<^verbatim>\<open>delete_old_backups_by_count\<close>, lines 171 to 175, and the answer to one
  \<^verbatim>\<open>files().list\<close> request: the first page of the matching files, \<open>pageSize\<close> of them at
  most.  The request of the source names no page token and asks for no further page.
\<close>

definition matches_query :: "string \<Rightarrow> drive_file \<Rightarrow> bool" where
  "matches_query parent f = (parent \<in> set (parents f) \<and> mimeType f = folder_mime \<and> \<not> trashed f)"

definition first_page :: "drive_file list \<Rightarrow> string \<Rightarrow> nat \<Rightarrow> drive_file list" where
  "first_page store parent pageSize = take pageSize (filter (matches_query parent) store)"

definition files_list :: "drive_file list \<Rightarrow> string \<Rightarrow> nat \<Rightarrow> drive_entry list" where
  "files_list store parent pageSize = map to_entry (first_page store parent pageSize)"

text \<open>
  \<^verbatim>\<open>files().delete(fileId=i)\<close> answers 404 when no file has the id; otherwise the file goes,
  and with it the files it is a parent of.
\<close>

definition files_delete :: "drive_file list \<Rightarrow> string \<Rightarrow> exn + drive_file list" where
  "files_delete store i =
     (if i \<in> file_id ` set store
      then Inr (filter (\<lambda>f. file_id f \<noteq> i \<and> i \<notin> set (parents f)) store)
      else Inl (HttpError 404))"

section \<open>The world, the environment of a cycle and the bot\<close>

text \<open>
  The state that the program reads and changes: the file system, the Drive and the log.
  A log record is a level and a message; the texts of the source are named, not spelt.
\<close>

datatype level = DEBUG | INFO | ERROR

datatype message =
    LoggerInitialised
  | Zipping path path
  | OldZipRemoved
  | Excluded path
  | ZipCreated nat
  | Authenticating
  | Authenticated
  | CreatingDriveFolder string
  | DriveFolderCreated string
  | Uploading path string
  | UploadDone string
  | RemovedLocal path
  | ListingDriveFolders
  | RemovedDrive string string
  | CycleStart
  | BackupOk
  | BackupError exn
  | Traceback
  | CycleEnd
  | ServiceStarted int
  | UnexpectedInRun exn

record world =
  fs :: node
  drive :: "drive_file list"
  logs :: "(level \<times> message) list"

text \<open>
  What one cycle gets from outside: the two clock readings of \<^verbatim>\<open>do_backup\<close>, the creation
  time given to a new directory, and the outcome of every call that leaves the machine
  or that can fail for a reason the file tree does not show.  \<open>None\<close> is a call that goes
  through.  \<open>rmtree_fault q\<close> is what the removal of the file or directory \<open>q\<close> meets
  inside \<^verbatim>\<open>shutil.rmtree\<close>.
\<close>

record env =
  now :: datetime
  utcnow :: datetime
  clock :: real
  credentials_fault :: "exn option"
  build_fault :: "exn option"
  create_fault :: "exn option"
  new_folder_id :: string
  new_folder_created :: string
  upload_fault :: "exn option"
  new_file_id :: string
  new_file_created :: string
  list_fault :: "exn option"
  delete_fault :: "string \<Rightarrow> exn option"
  rmtree_fault :: "path \<Rightarrow> exn option"

text \<open>The fields that \<^verbatim>\<open>BotBackup.__init__\<close> sets, lines 40 to 52.\<close>

record bot_backup =
  bot_name :: string
  service_account_file :: string
  parent_folder_id :: string
  folder_to_zip :: path
  local_backup_root :: path
  zip_prefix :: string
  backup_interval :: "(string \<times> int) list"
  local_keep :: int
  drive_keep :: int
  scopes :: "string list"
  excluded_extensions :: "string set"
  excluded_folders :: "string set"

section \<open>Computations that change the world and may raise\<close>

type_synonym 'a io = "world \<Rightarrow> (exn + 'a) \<times> world"

definition io_return :: "'a \<Rightarrow> 'a io" where
  "io_return x w = (Inr x, w)"

definition io_raise :: "exn \<Rightarrow> 'a io" where
  "io_raise e w = (Inl e, w)"

definition io_bind :: "'a io \<Rightarrow> ('a \<Rightarrow> 'b io) \<Rightarrow> 'b io" where
  "io_bind m f w = (case m w of (Inl e, w') \<Rightarrow> (Inl e, w') | (Inr x, w') \<Rightarrow> f x w')"

definition io_then :: "'a io \<Rightarrow> 'b io \<Rightarrow> 'b io" where
  "io_then m k = io_bind m (\<lambda>_. k)"

text \<open>\<^verbatim>\<open>try: m except Exception as e: h e\<close>.\<close>

definition io_try :: "'a io \<Rightarrow> (exn \<Rightarrow> 'a io) \<Rightarrow> 'a io" where
  "io_try m h w = (case m w of (Inl e, w') \<Rightarrow> h e w' | (Inr x, w') \<Rightarrow> (Inr x, w'))"

definition io_when :: "bool \<Rightarrow> unit io \<Rightarrow> unit io" where
  "io_when b m = (if b then m else io_return ())"

definition io_fault :: "exn option \<Rightarrow> unit io" where
  "io_fault f = (case f of None \<Rightarrow> io_return () | Some e \<Rightarrow> io_raise e)"

definition logger :: "level \<Rightarrow> message \<Rightarrow> unit io" where
  "logger lvl msg w = (Inr (), w\<lparr>logs := logs w @ [(lvl, msg)]\<rparr>)"

definition io_fs :: "(node \<Rightarrow> exn + node) \<Rightarrow> unit io" where
  "io_fs f w = (case f (fs w) of Inl e \<Rightarrow> (Inl e, w) | Inr fs' \<Rightarrow> (Inr (), w\<lparr>fs := fs'\<rparr>))"

definition io_drive :: "(drive_file list \<Rightarrow> exn + drive_file list) \<Rightarrow> unit io" where
  "io_drive f w = (case f (drive w) of Inl e \<Rightarrow> (Inl e, w) | Inr d' \<Rightarrow> (Inr (), w\<lparr>drive := d'\<rparr>))"

definition io_rmtree :: "(path \<Rightarrow> exn option) \<Rightarrow> path \<Rightarrow> unit io" where
  "io_rmtree bad p w =
     (case shutil_rmtree bad (fs w) p of
        (None, fs') \<Rightarrow> (Inr (), w\<lparr>fs := fs'\<rparr>)
      | (Some ex, fs') \<Rightarrow> (Inl ex, w\<lparr>fs := fs'\<rparr>))"

definition io_read :: "(world \<Rightarrow> exn + 'a) \<Rightarrow> 'a io" where
  "io_read f w = (f w, w)"

definition io_get :: "(world \<Rightarrow> 'a) \<Rightarrow> 'a io" where
  "io_get f w = (Inr (f w), w)"

fun log_all :: "level \<Rightarrow> message list \<Rightarrow> unit io" where
  "log_all lvl [] = io_return ()"
| "log_all lvl (m # ms) = io_then (logger lvl m) (log_all lvl ms)"

section \<open>The methods of \<^verbatim>\<open>BotBackup\<close>\<close>

text \<open>\<^verbatim>\<open>authenticate\<close>, lines 84 to 91.  The credentials are not looked into.\<close>

definition authenticate :: "bot_backup \<Rightarrow> env \<Rightarrow> string io" where
  "authenticate self e =
     io_then (logger DEBUG Authenticating)
    (io_then (io_fault (credentials_fault e))
    (io_then (logger DEBUG Authenticated)
    (io_return (service_account_file self))))"

text \<open>
  \<^verbatim>\<open>custom_zip_folder\<close>, lines 93 to 120.  \<^verbatim>\<open>os.path.abspath\<close> is the identity on the absolute
  paths of the model.  \<open>remove_old_zip\<close> is lines 96 to 98 and \<open>write_zip\<close> lines 100 to
  120.  The archive is opened before the walk and gets its members when the \<^verbatim>\<open>with\<close>
  block closes it; the walk reads the tree as it is after the opening.
\<close>

definition walk_source :: "bot_backup \<Rightarrow> path \<Rightarrow> node \<Rightarrow> zip_action list" where
  "walk_source self abs_src tree =
     (case lookup tree abs_src of
        None \<Rightarrow> []
      | Some n \<Rightarrow> zip_walk (excluded_folders self) (excluded_extensions self) abs_src abs_src n)"

definition remove_old_zip :: "path \<Rightarrow> unit io" where
  "remove_old_zip zip_path =
     io_bind (io_get (\<lambda>w. os_path_exists (fs w) zip_path)) (\<lambda>found.
       io_when found
         (io_then (io_fs (\<lambda>t. os_remove t zip_path)) (logger DEBUG OldZipRemoved)))"

definition write_zip :: "bot_backup \<Rightarrow> path \<Rightarrow> path \<Rightarrow> unit io" where
  "write_zip self abs_src zip_path =
     io_bind (io_get (\<lambda>w. os_path_isdir (fs w) abs_src)) (\<lambda>isdir.
       if \<not> isdir then io_raise FileNotFoundError
       else
         io_then (io_fs (\<lambda>t. write_file t zip_path (Archive [])))
        (io_bind (io_get (\<lambda>w. walk_source self abs_src (fs w))) (\<lambda>actions.
         io_then (log_all DEBUG (map Excluded (skipped actions)))
        (io_then (io_fs (\<lambda>t. write_file t zip_path (Archive (written actions))))
        (io_then (io_read (\<lambda>w. os_path_getsize (fs w) zip_path))
        (logger INFO (ZipCreated (length (written actions)))))))))"

definition custom_zip_folder :: "bot_backup \<Rightarrow> path \<Rightarrow> path \<Rightarrow> unit io" where
  "custom_zip_folder self source_folder zip_path =
     io_then (logger INFO (Zipping source_folder zip_path))
    (io_then (remove_old_zip zip_path)
    (let abs_src = source_folder in write_zip self abs_src zip_path))"

text \<open>\<^verbatim>\<open>create_drive_folder\<close>, lines 122 to 133.\<close>

definition create_drive_folder :: "bot_backup \<Rightarrow> env \<Rightarrow> string \<Rightarrow> string io" where
  "create_drive_folder self e nm =
     io_then (logger INFO (CreatingDriveFolder nm))
    (io_then (io_fault (create_fault e))
    (io_then (io_drive (\<lambda>store. Inr (store @
        [\<lparr>file_id = new_folder_id e, file_name = nm, mimeType = folder_mime,
          parents = [parent_folder_id self], trashed = False,
          file_created = new_folder_created e\<rparr>])))
    (io_then (logger INFO (DriveFolderCreated (new_folder_id e)))
    (io_return (new_folder_id e)))))"

text \<open>
  \<^verbatim>\<open>upload_file_to_folder\<close>, lines 135 to 151.  \<^verbatim>\<open>MediaFileUpload\<close> opens the file, which
  raises when it is not there.  Of the table of \<^verbatim>\<open>mimetypes\<close> only the row of \<^verbatim>\<open>.zip\<close> is
  kept, the bot uploads nothing else.
\<close>

definition guess_mime :: "string \<Rightarrow> string" where
  "guess_mime fname =
     (if suffix ''.zip'' fname then ''application/zip'' else ''application/octet-stream'')"

definition open_media :: "node \<Rightarrow> path \<Rightarrow> exn + data" where
  "open_media tree p =
     (case lookup tree p of
        None \<Rightarrow> Inl FileNotFoundError
      | Some (Dir d t cs) \<Rightarrow> Inl IsADirectoryError
      | Some (File f d) \<Rightarrow> Inr d)"

definition upload_file_to_folder :: "bot_backup \<Rightarrow> env \<Rightarrow> string \<Rightarrow> path \<Rightarrow> string io" where
  "upload_file_to_folder self e folder_id file_path =
     io_then (logger INFO (Uploading file_path folder_id))
    (io_bind (io_read (\<lambda>w. open_media (fs w) file_path)) (\<lambda>media.
     io_then (io_fault (upload_fault e))
    (io_then (io_drive (\<lambda>store. Inr (store @
        [\<lparr>file_id = new_file_id e, file_name = last file_path,
          mimeType = guess_mime (last file_path), parents = [folder_id], trashed = False,
          file_created = new_file_created e\<rparr>])))
    (io_then (logger INFO (UploadDone (new_file_id e)))
    (io_return (new_file_id e))))))"

text \<open>
  \<^verbatim>\<open>clean_local_backups\<close>, lines 153 to 165.  The loop of lines 163 to 165 is
  \<open>remove_locals\<close>: nothing catches what \<^verbatim>\<open>shutil.rmtree\<close> raises, and what it has
  removed of the entry when it raises is gone.
\<close>

fun remove_locals :: "env \<Rightarrow> path list \<Rightarrow> unit io" where
  "remove_locals e [] = io_return ()"
| "remove_locals e (old # rest) =
     io_then (io_rmtree (rmtree_fault e) old)
    (io_then (logger INFO (RemovedLocal old))
    (remove_locals e rest))"

definition local_subs :: "node \<Rightarrow> path \<Rightarrow> string list \<Rightarrow> path list" where
  "local_subs tree rt names = filter (os_path_isdir tree) (map (\<lambda>d. rt @ [d]) names)"

definition clean_local_backups :: "bot_backup \<Rightarrow> env \<Rightarrow> unit io" where
  "clean_local_backups self e =
     (let rt = local_backup_root self in
      io_bind (io_read (\<lambda>w. os_listdir (fs w) rt)) (\<lambda>names.
      io_bind (io_get (\<lambda>w. local_subs (fs w) rt names)) (\<lambda>subs.
      io_bind (io_get (\<lambda>w. select_local (os_path_getctime (fs w)) subs (local_keep self)))
        (\<lambda>to_remove. remove_locals e to_remove))))"

text \<open>
  \<^verbatim>\<open>delete_old_backups_by_count\<close>, lines 167 to 186.  The loop of lines 182 to 186 is
  \<open>delete_remotes\<close>: nothing catches what the delete request raises.
\<close>

fun delete_remotes :: "env \<Rightarrow> drive_entry list \<Rightarrow> unit io" where
  "delete_remotes e [] = io_return ()"
| "delete_remotes e (f # rest) =
     io_then (io_fault (delete_fault e (entry_id f)))
    (io_then (io_drive (\<lambda>store. files_delete store (entry_id f)))
    (io_then (logger INFO (RemovedDrive (entry_name f) (createdTime f)))
    (delete_remotes e rest)))"

definition delete_old_backups_by_count :: "bot_backup \<Rightarrow> env \<Rightarrow> unit io" where
  "delete_old_backups_by_count self e =
     io_then (logger DEBUG ListingDriveFolders)
    (io_then (io_fault (list_fault e))
    (io_bind (io_get (\<lambda>w. files_list (drive w) (parent_folder_id self) 1000)) (\<lambda>files.
     delete_remotes e (select_remote files (drive_keep self)))))"

text \<open>
  \<^verbatim>\<open>timedelta(**kwargs)\<close>, in microseconds: a keyword that is no unit of time is a
  \<^verbatim>\<open>TypeError\<close>, more than 999999999 days an \<^verbatim>\<open>OverflowError\<close>.
\<close>

definition timedelta_units :: "(string \<times> int) list" where
  "timedelta_units =
     [(''days'', 86400000000), (''seconds'', 1000000), (''microseconds'', 1),
      (''milliseconds'', 1000), (''minutes'', 60000000), (''hours'', 3600000000),
      (''weeks'', 604800000000)]"

definition timedelta :: "(string \<times> int) list \<Rightarrow> exn + int" where
  "timedelta kwargs =
     (if list_ex (\<lambda>k. map_of timedelta_units k = None) (map fst kwargs) then Inl TypeError
      else
        let us = sum_list (map (\<lambda>kv. snd kv * the (map_of timedelta_units (fst kv))) kwargs)
        in if 999999999 < \<bar>us div 86400000000\<bar> then Inl OverflowError else Inr us)"

text \<open>
  \<^verbatim>\<open>do_backup\<close>, lines 188 to 242.  The local folder is made before the \<^verbatim>\<open>try\<close> block
  is entered.  The block is \<open>backup_steps\<close>: the steps 3 to 5 (\<open>before_pruning\<close>: archive,
  credentials, service, Drive folder, upload), then the two prunings of step 6 and the
  summary, whose size and interval are computed before its line is logged.
\<close>

definition before_pruning :: "bot_backup \<Rightarrow> env \<Rightarrow> path \<Rightarrow> unit io" where
  "before_pruning self e zip_path =
     io_then (custom_zip_folder self (folder_to_zip self) zip_path)
    (io_bind (authenticate self e) (\<lambda>creds.
     io_then (io_fault (build_fault e))
    (io_bind (create_drive_folder self e (drive_folder_name (bot_name self) (now e))) (\<lambda>df_id.
     io_bind (upload_file_to_folder self e df_id zip_path) (\<lambda>_. io_return ())))))"

definition pruning_and_summary :: "bot_backup \<Rightarrow> env \<Rightarrow> path \<Rightarrow> unit io" where
  "pruning_and_summary self e zip_path =
     io_then (clean_local_backups self e)
    (io_then (delete_old_backups_by_count self e)
    (io_then (io_read (\<lambda>w. os_path_getsize (fs w) zip_path))
    (io_bind (io_read (\<lambda>w. timedelta (backup_interval self))) (\<lambda>_.
     logger INFO BackupOk))))"

definition backup_steps :: "bot_backup \<Rightarrow> env \<Rightarrow> path \<Rightarrow> unit io" where
  "backup_steps self e zip_path =
     io_then (before_pruning self e zip_path) (pruning_and_summary self e zip_path)"

text \<open>
  The end of \<^verbatim>\<open>do_backup\<close>, lines 213 and 238 to 242: the \<^verbatim>\<open>try\<close> block \<open>m\<close> with its
  handler, then the end marker.
\<close>

definition guarded :: "unit io \<Rightarrow> unit io" where
  "guarded m =
     io_then (io_try m (\<lambda>ex. io_then (logger ERROR (BackupError ex)) (logger DEBUG Traceback)))
       (logger INFO CycleEnd)"

definition do_backup :: "bot_backup \<Rightarrow> env \<Rightarrow> unit io" where
  "do_backup self e =
     (let local_folder = local_backup_root self @ [local_name (now e)] in
      io_then (io_fs (\<lambda>t. os_makedirs t (clock e) local_folder))
     (let zip_path = local_folder @ [zip_name (zip_prefix self) (utcnow e)] in
      io_then (logger INFO CycleStart)
     (guarded (backup_steps self e zip_path))))"

text \<open>The local folder and the archive path of the cycle that meets \<open>e\<close>, lines 202 and 208.\<close>

definition cycle_folder :: "bot_backup \<Rightarrow> env \<Rightarrow> path" where
  "cycle_folder self e = local_backup_root self @ [local_name (now e)]"

definition cycle_zip :: "bot_backup \<Rightarrow> env \<Rightarrow> path" where
  "cycle_zip self e = cycle_folder self e @ [zip_name (zip_prefix self) (utcnow e)]"

text \<open>
  \<open>grows w w'\<close>: from \<open>w\<close> to \<open>w'\<close> no directory has gone and no Drive file has gone.
  A computation is \<open>steady\<close> when it only ever takes a world to one that has grown.
\<close>

definition grows :: "world \<Rightarrow> world \<Rightarrow> bool" where
  "grows w w' =
     ((\<forall>p. os_path_isdir (fs w) p \<longrightarrow> os_path_isdir (fs w') p) \<and> set (drive w) \<subseteq> set (drive w'))"

definition steady :: "'a io \<Rightarrow> bool" where
  "steady m = (\<forall>w r w'. m w = (r, w') \<longrightarrow> grows w w')"







section \<open>Sample data\<close>

text \<open>Three Drive folders and four local folders with increasing creation times.\<close>

definition r1 :: drive_entry where
  "r1 = \<lparr>entry_id = ''id1'', entry_name = ''bot 1 janvier 2024 10h00'',
          createdTime = ''2024-01-01T09:00:00.000Z''\<rparr>"

definition r2 :: drive_entry where
  "r2 = \<lparr>entry_id = ''id2'', entry_name = ''bot 2 janvier 2024 10h00'',
          createdTime = ''2024-01-02T09:00:00.000Z''\<rparr>"

definition r3 :: drive_entry where
  "r3 = \<lparr>entry_id = ''id3'', entry_name = ''bot 3 janvier 2024 10h00'',
          createdTime = ''2024-01-03T09:00:00.000Z''\<rparr>"

definition ctime4 :: "path \<Rightarrow> real" where
  "ctime4 p = (if p = [''backup'', ''bot'', ''d1''] then 1 else if p = [''backup'', ''bot'', ''d2''] then 2
               else if p = [''backup'', ''bot'', ''d3''] then 3 else 4)"

definition subs4 :: "path list" where
  "subs4 = [[''backup'', ''bot'', ''d3''], [''backup'', ''bot'', ''d1''],
            [''backup'', ''bot'', ''d4''], [''backup'', ''bot'', ''d2'']]"

text \<open>
  A bot, a file tree with its source folder and three earlier backups, a Drive with three
  earlier folders, and the environment of a cycle in which every call goes through.
\<close>

definition bot0 :: bot_backup where
  "bot0 = \<lparr>bot_name = ''Bot'', service_account_file = ''sa.json'', parent_folder_id = ''P'',
     folder_to_zip = [''srv'', ''bot''], local_backup_root = [''backup'', ''Bot''],
     zip_prefix = ''backup-bot'', backup_interval = [(''hours'', 6)], local_keep = 2,
     drive_keep = 2, scopes = [''https://www.googleapis.com/auth/drive''],
     excluded_extensions = {''.log'', ''.pyc''},
     excluded_folders = {''node_modules'', ''__pycache__''}\<rparr>"

definition src0 :: node where
  "src0 = Dir ''bot'' 0
     [File ''main.py'' (Bytes ''m''), File ''debug.log'' (Bytes ''l''),
      Dir ''node_modules'' 0 [File ''x.js'' (Bytes ''x'')],
      Dir ''src'' 0
        [File ''a.py'' (Bytes ''a''), File ''a.pyc'' (Bytes ''c''),
         Dir ''__pycache__'' 0 [File ''b.py'' (Bytes ''b'')],
         Dir ''deep'' 0 [File ''d.txt'' (Bytes ''d'')]]]"

definition fs0 :: node where
  "fs0 = Dir [] 0
     [Dir ''srv'' 0 [src0],
      Dir ''backup'' 0
        [Dir ''Bot'' 0
           [File ''backup.log'' (Bytes []),
            Dir ''old1'' 1 [File ''z1.zip'' (Archive [])],
            Dir ''old2'' 2 [File ''z2.zip'' (Archive [])],
            Dir ''old3'' 3 [File ''z3.zip'' (Archive [])]]]]"

definition folder0 :: "string \<Rightarrow> string \<Rightarrow> drive_file" where
  "folder0 i t = \<lparr>file_id = i, file_name = ''Bot '' @ i, mimeType = folder_mime,
     parents = [''P''], trashed = False, file_created = t\<rparr>"

definition w0 :: world where
  "w0 = \<lparr>fs = fs0,
     drive = [folder0 ''f2'' ''2024-01-02'', folder0 ''f1'' ''2024-01-01'',
              folder0 ''f3'' ''2024-01-03''],
     logs = []\<rparr>"

definition env0 :: env where
  "env0 = \<lparr>now = \<lparr>year = 2026, month = 11, day = 3, hour = 14, minute = 5, second = 9\<rparr>,
     utcnow = \<lparr>year = 2026, month = 11, day = 3, hour = 13, minute = 5, second = 9\<rparr>,
     clock = 10, credentials_fault = None, build_fault = None, create_fault = None,
     new_folder_id = ''f4'', new_folder_created = ''2026-11-03'', upload_fault = None,
     new_file_id = ''z4'', new_file_created = ''2026-11-03'', list_fault = None,
     delete_fault = (\<lambda>_. None), rmtree_fault = (\<lambda>_. None)\<rparr>"

definition fs1 :: node where
  "fs1 = Dir [] 0
     [Dir ''srv'' 0 [src0],
      Dir ''backup'' 0
        [Dir ''Bot'' 0
           [File ''backup.log'' (Bytes []),
            Dir ''old1'' 1 [File ''z1.zip'' (Archive [])],
            Dir ''old2'' 2 [File ''z2.zip'' (Archive [])],
            Dir ''old3'' 3 [File ''z3.zip'' (Archive [])],
            Dir ''mardi-03-novembre-2026-14h05'' 10 []]]]"

definition w_blocked :: world where
  "w_blocked = \<lparr>fs = Dir [] 0 [Dir ''backup'' 0 [Dir ''Bot'' 0
       [File ''mardi-03-novembre-2026-14h05'' (Bytes [])]]],
     drive = [], logs = []\<rparr>"

definition env_upload_fails :: env where
  "env_upload_fails = env0\<lparr>upload_fault := Some (HttpError 500)\<rparr>"

definition env_rmtree_fails :: env where
  "env_rmtree_fails =
     env0\<lparr>rmtree_fault :=
       (\<lambda>p. if p = [''backup'', ''Bot'', ''old2''] then Some PermissionError else None)\<rparr>"

definition env_delete_404 :: env where
  "env_delete_404 =
     env0\<lparr>delete_fault := (\<lambda>i. if i = ''f2'' then Some (HttpError 404) else None)\<rparr>"

definition many_folders :: "nat \<Rightarrow> drive_file list" where
  "many_folders n =
     map (\<lambda>i. folder0 (replicate (Suc i) (CHR ''x'')) (replicate (Suc i) (CHR ''0''))) [0..<n]"

definition w_many :: world where
  "w_many = \<lparr>fs = fs0, drive = many_folders 1001, logs = []\<rparr>"




definition bot1 :: bot_backup where
  "bot1 = bot0\<lparr>local_keep := 1, drive_keep := 1\<rparr>"

definition tree_with :: "node list \<Rightarrow> node" where
  "tree_with entries =
     Dir [] 0 [Dir ''srv'' 0 [src0], Dir ''backup'' 0 [Dir ''Bot'' 0 entries]]"

definition zip4 :: node where
  "zip4 = File ''backup-bot_20261103_130509.zip''
     (Archive [([''main.py''], Bytes ''m''), ([''src'', ''a.py''], Bytes ''a''),
               ([''src'', ''deep'', ''d.txt''], Bytes ''d'')])"

definition olds :: "node list" where
  "olds = [File ''backup.log'' (Bytes []),
           Dir ''old1'' 1 [File ''z1.zip'' (Archive [])],
           Dir ''old2'' 2 [File ''z2.zip'' (Archive [])],
           Dir ''old3'' 3 [File ''z3.zip'' (Archive [])]]"

definition fs2 :: node where
  "fs2 = tree_with (olds @ [Dir ''mardi-03-novembre-2026-14h05'' 10 [zip4]])"

definition fs3 :: node where
  "fs3 = tree_with
     [File ''backup.log'' (Bytes []), Dir ''old1'' 1 [File ''z1.zip'' (Archive [])],
      Dir ''old2'' 2 [], Dir ''mardi-03-novembre-2026-14h05'' 10 [zip4]]"

definition w_uploaded :: world where
  "w_uploaded =
     \<lparr>fs = fs2,
      drive = drive w0 @
        [\<lparr>file_id = ''f4'', file_name = ''Bot 3 novembre 2026 14h05'', mimeType = folder_mime,
           parents = [''P''], trashed = False, file_created = ''2026-11-03''\<rparr>,
         \<lparr>file_id = ''z4'', file_name = ''backup-bot_20261103_130509.zip'',
           mimeType = ''application/zip'', parents = [''f4''], trashed = False,
           file_created = ''2026-11-03''\<rparr>],
      logs =
        [(INFO, CycleStart), (INFO, Zipping [''srv'', ''bot''] (cycle_zip bot0 env0)),
         (DEBUG, Excluded [''srv'', ''bot'', ''debug.log'']),
         (DEBUG, Excluded [''srv'', ''bot'', ''src'', ''a.pyc'']), (INFO, ZipCreated 3),
         (DEBUG, Authenticating), (DEBUG, Authenticated),
         (INFO, CreatingDriveFolder ''Bot 3 novembre 2026 14h05''),
         (INFO, DriveFolderCreated ''f4''), (INFO, Uploading (cycle_zip bot0 env0) ''f4''),
         (INFO, UploadDone ''z4'')]\<rparr>"

definition fs2_a :: node where
  "fs2_a = tree_with
     [File ''backup.log'' (Bytes []), Dir ''old1'' 1 [File ''z1.zip'' (Archive [])],
      Dir ''old2'' 2 [File ''z2.zip'' (Archive [])],
      Dir ''mardi-03-novembre-2026-14h05'' 10 [zip4]]"

definition fs4 :: node where
  "fs4 = tree_with [File ''backup.log'' (Bytes []), Dir ''mardi-03-novembre-2026-14h05'' 10 [zip4]]"

definition w_pruned :: world where
  "w_pruned = w_uploaded\<lparr>fs := fs4,
     logs := logs w_uploaded @
       [(INFO, RemovedLocal [''backup'', ''Bot'', ''old3'']),
        (INFO, RemovedLocal [''backup'', ''Bot'', ''old2'']),
        (INFO, RemovedLocal [''backup'', ''Bot'', ''old1''])]\<rparr>"

definition w_deleted :: world where
  "w_deleted = w_pruned\<lparr>
     drive := [folder0 ''f2'' ''2024-01-02'', folder0 ''f3'' ''2024-01-03''] @
        [\<lparr>file_id = ''f4'', file_name = ''Bot 3 novembre 2026 14h05'', mimeType = folder_mime,
           parents = [''P''], trashed = False, file_created = ''2026-11-03''\<rparr>,
         \<lparr>file_id = ''z4'', file_name = ''backup-bot_20261103_130509.zip'',
           mimeType = ''application/zip'', parents = [''f4''], trashed = False,
           file_created = ''2026-11-03''\<rparr>],
     logs := logs w_pruned @
       [(DEBUG, ListingDriveFolders), (INFO, RemovedDrive ''Bot f1'' ''2024-01-01'')]\<rparr>"

definition w_stopped :: world where
  "w_stopped = w_uploaded\<lparr>fs := fs3,
     logs := logs w_uploaded @ [(INFO, RemovedLocal [''backup'', ''Bot'', ''old3''])]\<rparr>"

text \<open>The number that a string of decimal digits writes, as \<^verbatim>\<open>int(s)\<close> reads it.\<close>

definition digits_value :: "string \<Rightarrow> nat" where
  "digits_value s = foldl (\<lambda>a c. 10 * a + (of_char c - 48)) 0 s"

definition env_later :: env where
  "env_later = env0\<lparr>now := (now env0)\<lparr>minute := 6\<rparr>, utcnow := (utcnow env0)\<lparr>second := 10\<rparr>\<rparr>"

definition env_same_minute :: env where
  "env_same_minute =
     env0\<lparr>now := (now env0)\<lparr>second := 10\<rparr>, utcnow := (utcnow env0)\<lparr>second := 10\<rparr>\<rparr>"

section \<open>Facts about slices and sorting\<close>

lemma py_bound_nonneg: "0 \<le> i \<Longrightarrow> py_bound n i = min (nat i) n"
  by (simp add: py_bound_def)

lemma py_bound_neg: "i < 0 \<Longrightarrow> py_bound n i = n - nat (- i)"
  by (simp add: py_bound_def)

lemma py_slice_to_minus_pos:
  "0 < k \<Longrightarrow> py_slice_to xs (- k) = take (length xs - nat k) xs"
  by (simp add: py_slice_to_def py_bound_neg)

lemma py_slice_to_minus_zero: "py_slice_to xs (- 0) = []"
  by (simp add: py_slice_to_def py_bound_def)

lemma py_slice_to_minus_neg:
  "k < 0 \<Longrightarrow> py_slice_to xs (- k) = take (nat (- k)) xs"
  by (simp add: py_slice_to_def py_bound_def min_def)

lemma py_slice_from_nonneg: "0 \<le> k \<Longrightarrow> py_slice_from xs k = drop (nat k) xs"
  by (simp add: py_slice_from_def py_bound_def min_def)

lemma py_slice_from_neg:
  "k < 0 \<Longrightarrow> py_slice_from xs k = drop (length xs - nat (- k)) xs"
  by (simp add: py_slice_from_def py_bound_neg)

lemma sorted_take_drop_le:
  assumes "sorted (map f xs)" and "x \<in> set (take n xs)" and "y \<in> set (drop n xs)"
  shows "f x \<le> f y"
proof -
  have "sorted (map f (take n xs) @ map f (drop n xs))"
    using assms(1) by (simp flip: map_append)
  then show ?thesis
    using assms(2,3) by (auto simp: sorted_append)
qed

lemma py_sort_sorted: "sorted (map f (py_sort f xs))"
  by (simp add: py_sort_def)

lemma py_sort_mset: "mset (py_sort f xs) = mset xs"
  by (simp add: py_sort_def)

lemma py_sort_reverse_mset: "mset (py_sort_reverse f xs) = mset xs"
  by (simp add: py_sort_reverse_def)

lemma py_sort_reverse_sorted: "sorted (rev (map f (py_sort_reverse f xs)))"
  by (simp add: py_sort_reverse_def rev_map)

lemma sorted_rev_take_drop_ge:
  assumes "sorted (rev (map f xs))" and "x \<in> set (take n xs)" and "y \<in> set (drop n xs)"
  shows "f y \<le> f x"
proof -
  have "xs = take n xs @ drop n xs" by simp
  then have "rev (map f xs) = rev (map f (drop n xs)) @ rev (map f (take n xs))"
    by (metis map_append rev_append)
  with assms(1) have "sorted (rev (map f (drop n xs)) @ rev (map f (take n xs)))"
    by simp
  then show ?thesis
    using assms(2,3) by (auto simp: sorted_append)
qed

section \<open>Facts about the file tree\<close>

lemma find_name_map:
  assumes "\<And>c. node_name (h c) = node_name c"
  shows "find (\<lambda>c. node_name c = x) (map h cs) = map_option h (find (\<lambda>c. node_name c = x) cs)"
  using assms by (induction cs) auto

lemma find_name_filter:
  "find (\<lambda>c. node_name c = x) (filter (\<lambda>c. node_name c \<noteq> z) cs) =
     (if x = z then None else find (\<lambda>c. node_name c = x) cs)"
  by (induction cs) auto

lemma find_name_append:
  "find P (cs @ ds) = (case find P cs of None \<Rightarrow> find P ds | Some c \<Rightarrow> Some c)"
  by (induction cs) auto

lemma find_None_iff_name: "find (\<lambda>c. node_name c = x) cs = None \<longleftrightarrow> (\<forall>c \<in> set cs. node_name c \<noteq> x)"
  by (induction cs) auto

lemma find_name_Some: "find (\<lambda>c. node_name c = x) cs = Some c \<Longrightarrow> node_name c = x \<and> c \<in> set cs"
  by (induction cs) (auto split: if_splits)

lemma node_name_alter [simp]: "node_name (alter g p n) = node_name n"
  by (cases n; cases p) auto

lemma is_dir_alter [simp]: "is_dir (alter g p n) = is_dir n"
  by (cases n; cases p) auto

lemma lookup_File [simp]: "lookup (File f d) p = (if p = [] then Some (File f d) else None)"
  by (cases p) auto

lemma lookup_snoc:
  "lookup n (q @ [z]) =
     (case lookup n q of
        Some (Dir d t cs) \<Rightarrow> find (\<lambda>c. node_name c = z) cs
      | _ \<Rightarrow> None)"
proof (induction q arbitrary: n)
  case Nil
  show ?case by (cases n) (auto split: option.splits)
next
  case (Cons x q)
  show ?case
  proof (cases n)
    case (File f d)
    then show ?thesis by simp
  next
    case (Dir d t cs)
    then show ?thesis using Cons by (auto split: option.splits)
  qed
qed

lemma alter_keeps_dirs:
  assumes "keeps_dirs_at g n q" and "lookup n p = Some m" and "is_dir m"
  shows "\<exists>m'. lookup (alter g q n) p = Some m' \<and> is_dir m'"
  using assms
proof (induction p arbitrary: n q m)
  case Nil
  then show ?case by simp
next
  case (Cons x p)
  then obtain d t cs where n: "n = Dir d t cs"
    by (cases n) auto
  from Cons.prems(2) n obtain c where c: "find (\<lambda>c. node_name c = x) cs = Some c"
    and lc: "lookup c p = Some m"
    by (auto split: option.splits)
  have cx: "node_name c = x"
    using find_name_Some [OF c] by simp
  have cdir: "is_dir c"
    using lc Cons.prems(3) by (cases c) (auto split: if_splits)
  show ?case
  proof (cases q)
    case Nil
    with Cons.prems(1) n c cdir have "find (\<lambda>c. node_name c = x) (g cs) = Some c"
      by (auto simp: keeps_dirs_at_def)
    with Nil n lc Cons.prems(3) show ?thesis by simp
  next
    case (Cons y q')
    show ?thesis
    proof (cases "x = y")
      case True
      have "keeps_dirs_at g c q'"
        using Cons.prems(1) n c True \<open>q = y # q'\<close> by (simp add: keeps_dirs_at_def)
      from Cons.IH [OF this lc Cons.prems(3)]
      show ?thesis
        using n c cx True \<open>q = y # q'\<close> by (simp add: find_name_map)
    next
      case False
      then show ?thesis
        using n c cx lc Cons.prems(3) \<open>q = y # q'\<close> by (simp add: find_name_map)
    qed
  qed
qed


lemma lookup_alter_same:
  "lookup n q = Some (Dir d t cs) \<Longrightarrow> lookup (alter g q n) q = Some (Dir d t (g cs))"
proof (induction q arbitrary: n)
  case Nil
  then show ?case by simp
next
  case (Cons x q)
  then obtain d' t' cs' where n: "n = Dir d' t' cs'"
    by (cases n) auto
  from Cons.prems n obtain c where c: "find (\<lambda>c. node_name c = x) cs' = Some c"
    and lc: "lookup c q = Some (Dir d t cs)"
    by (auto split: option.splits)
  have "node_name c = x"
    using find_name_Some [OF c] by simp
  with Cons.IH [OF lc] n c show ?case
    by (simp add: find_name_map)
qed

lemma lookup_parent:
  assumes "lookup n p = Some m" and "p \<noteq> []"
  shows "\<exists>d t cs. lookup n (butlast p) = Some (Dir d t cs)
           \<and> find (\<lambda>c. node_name c = last p) cs = Some m"
proof -
  from assms(2) have p: "p = butlast p @ [last p]" by simp
  from assms(1) have "lookup n (butlast p @ [last p]) = Some m"
    using p by simp
  then show ?thesis
    unfolding lookup_snoc by (auto split: option.splits node.splits)
qed

lemma isdir_iff: "os_path_isdir tree p \<longleftrightarrow> (\<exists>m. lookup tree p = Some m \<and> is_dir m)"
  by (auto simp: os_path_isdir_def split: option.splits)

lemma keeps_dirs_remove_file:
  assumes "lookup n p = Some (File f d)" and "p \<noteq> []"
  shows "keeps_dirs_at (remove_entry (last p)) n (butlast p)"
proof -
  from lookup_parent [OF assms] obtain d' t cs where
    par: "lookup n (butlast p) = Some (Dir d' t cs)"
    and f: "find (\<lambda>c. node_name c = last p) cs = Some (File f d)"
    by blast
  show ?thesis
    unfolding keeps_dirs_at_def remove_entry_def find_name_filter
    using par f by auto
qed

lemma os_remove_keeps_dirs:
  assumes "os_remove tree p = Inr tree'" and "os_path_isdir tree q"
  shows "os_path_isdir tree' q"
proof -
  from assms(1) obtain f d where f: "lookup tree p = Some (File f d)"
    and t': "tree' = alter (remove_entry (last p)) (butlast p) tree" and ne: "p \<noteq> []"
    by (auto simp: os_remove_def split: option.splits node.splits if_splits)
  from alter_keeps_dirs [OF keeps_dirs_remove_file [OF f ne]] assms(2) show ?thesis
    unfolding t' isdir_iff by blast
qed



lemma find_name_replace:
  assumes "node_name n = z"
  shows "find (\<lambda>c. node_name c = x) (map (\<lambda>c. if node_name c = z then n else c) cs) =
     (if x = z then map_option (\<lambda>_. n) (find (\<lambda>c. node_name c = z) cs)
      else find (\<lambda>c. node_name c = x) cs)"
  using assms by (induction cs) auto

lemma find_put_entry_other:
  "x \<noteq> node_name n \<Longrightarrow>
   find (\<lambda>c. node_name c = x) (put_entry n cs) = find (\<lambda>c. node_name c = x) cs"
  by (auto simp: put_entry_def find_name_replace find_name_append split: option.splits)

lemma find_put_entry_same:
  "find (\<lambda>c. node_name c = node_name n) (put_entry n cs) = Some n"
proof (cases "\<exists>c \<in> set cs. node_name c = node_name n")
  case True
  then have "find (\<lambda>c. node_name c = node_name n) cs \<noteq> None"
    by (simp add: find_None_iff_name)
  with True show ?thesis
    by (auto simp: put_entry_def find_name_replace)
next
  case False
  then have "find (\<lambda>c. node_name c = node_name n) cs = None"
    by (simp add: find_None_iff_name)
  with False show ?thesis
    by (simp add: put_entry_def find_name_append)
qed

lemma write_file_keeps_dirs:
  assumes "write_file tree p d = Inr tree'" and "os_path_isdir tree q"
  shows "os_path_isdir tree' q"
proof -
  from assms(1) obtain d' t cs where ne: "p \<noteq> []"
    and par: "lookup tree (butlast p) = Some (Dir d' t cs)"
    and nd: "\<not> os_path_isdir tree p"
    and t': "tree' = alter (put_entry (File (last p) d)) (butlast p) tree"
    by (auto simp: write_file_def split: if_splits option.splits node.splits)
  have "lookup tree (butlast p @ [last p]) = find (\<lambda>c. node_name c = last p) cs"
    unfolding lookup_snoc par by simp
  with ne have lp: "lookup tree p = find (\<lambda>c. node_name c = last p) cs" by simp
  have "keeps_dirs_at (put_entry (File (last p) d)) tree (butlast p)"
    unfolding keeps_dirs_at_def
  proof (intro allI impI)
    fix d'' t'' cs' x c
    assume "lookup tree (butlast p) = Some (Dir d'' t'' cs')"
      and c: "find (\<lambda>c. node_name c = x) cs' = Some c" and dir: "is_dir c"
    with par have cs': "cs' = cs" by simp
    have "x \<noteq> last p"
      using nd lp c dir cs' by (auto simp: isdir_iff)
    then show "find (\<lambda>c. node_name c = x) (put_entry (File (last p) d) cs') = Some c"
      using c by (simp add: find_put_entry_other)
  qed
  from alter_keeps_dirs [OF this] assms(2) show ?thesis
    unfolding t' isdir_iff by blast
qed

lemma write_file_lookup:
  assumes "write_file tree p d = Inr tree'"
  shows "lookup tree' p = Some (File (last p) d)"
proof -
  from assms(1) obtain d' t cs where ne: "p \<noteq> []"
    and par: "lookup tree (butlast p) = Some (Dir d' t cs)"
    and t': "tree' = alter (put_entry (File (last p) d)) (butlast p) tree"
    by (auto simp: write_file_def split: if_splits option.splits node.splits)
  have "lookup tree' (butlast p @ [last p]) = Some (File (last p) d)"
    unfolding t' lookup_snoc lookup_alter_same [OF par]
    using find_put_entry_same [of "File (last p) d" cs] by simp
  with ne show ?thesis by simp
qed

lemma write_file_ok:
  assumes "p \<noteq> []" and "os_path_isdir tree (butlast p)" and "\<not> os_path_isdir tree p"
  shows "\<exists>tree'. write_file tree p d = Inr tree'"
  using assms by (auto simp: write_file_def isdir_iff split: option.splits node.splits)

lemma node_name_makedirs: "makedirs t q n = Inr n' \<Longrightarrow> node_name n' = node_name n"
  by (cases n; cases q) (auto split: option.splits sum.splits)

lemma node_name_new_dirs [simp]: "node_name (new_dirs t x q) = x"
  by (cases q) auto

lemma makedirs_keeps_dirs:
  assumes "makedirs t q n = Inr n'" and "lookup n p = Some m" and "is_dir m"
  shows "\<exists>m'. lookup n' p = Some m' \<and> is_dir m'"
  using assms
proof (induction q arbitrary: n n' p m)
  case Nil
  then show ?case by (cases n) auto
next
  case (Cons x q)
  from Cons.prems(1) obtain d ct cs where n: "n = Dir d ct cs"
    by (cases n) auto
  show ?case
  proof (cases p)
    case Nil
    with Cons.prems n show ?thesis
      by (auto split: option.splits sum.splits)
  next
    case (Cons y p')
    with Cons.prems(2) n obtain cy where cy: "find (\<lambda>c. node_name c = y) cs = Some cy"
      and lcy: "lookup cy p' = Some m"
      by (auto split: option.splits)
    show ?thesis
    proof (cases "find (\<lambda>c. node_name c = x) cs")
      case None
      with Cons.prems(1) n have "n' = Dir d ct (cs @ [new_dirs t x q])" by simp
      with cy lcy Cons.prems(3) \<open>p = y # p'\<close> show ?thesis
        by (simp add: find_name_append)
    next
      case (Some c)
      with Cons.prems(1) n obtain c' where c': "makedirs t q c = Inr c'"
        and n': "n' = Dir d ct (map (\<lambda>c. if node_name c = x then c' else c) cs)"
        by (auto split: sum.splits)
      have nc: "node_name c' = x"
        using node_name_makedirs [OF c'] find_name_Some [OF Some] by simp
      show ?thesis
      proof (cases "y = x")
        case True
        with cy Some have "cy = c" by simp
        with Cons.IH [OF c' _ Cons.prems(3)] lcy obtain m' where
          "lookup c' p' = Some m'" "is_dir m'" by blast
        with True Some n' nc \<open>p = y # p'\<close> show ?thesis
          by (simp add: find_name_replace)
      next
        case False
        with cy lcy Cons.prems(3) n' nc \<open>p = y # p'\<close> show ?thesis
          by (simp add: find_name_replace)
      qed
    qed
  qed
qed

lemma os_makedirs_keeps_dirs:
  "os_makedirs tree t p = Inr tree' \<Longrightarrow> os_path_isdir tree q \<Longrightarrow> os_path_isdir tree' q"
  unfolding os_makedirs_def isdir_iff using makedirs_keeps_dirs by blast

lemma lookup_new_dirs: "\<exists>m. lookup (new_dirs t x q) q = Some m \<and> is_dir m"
  by (induction q arbitrary: x) auto

lemma makedirs_isdir:
  "makedirs t q n = Inr n' \<Longrightarrow> \<exists>m. lookup n' q = Some m \<and> is_dir m"
proof (induction q arbitrary: n n')
  case Nil
  then show ?case by (cases n) auto
next
  case (Cons x q)
  from Cons.prems(1) obtain d ct cs where n: "n = Dir d ct cs"
    by (cases n) auto
  show ?case
  proof (cases "find (\<lambda>c. node_name c = x) cs")
    case None
    with Cons.prems(1) n have "n' = Dir d ct (cs @ [new_dirs t x q])" by simp
    with None lookup_new_dirs [of t x q] show ?thesis
      by (auto simp: find_name_append)
  next
    case (Some c)
    with Cons.prems(1) n obtain c' where c': "makedirs t q c = Inr c'"
      and n': "n' = Dir d ct (map (\<lambda>c. if node_name c = x then c' else c) cs)"
      by (auto split: sum.splits)
    have nc: "node_name c' = x"
      using node_name_makedirs [OF c'] find_name_Some [OF Some] by simp
    from Cons.IH [OF c'] n' nc Some show ?thesis
      by (auto simp: find_name_replace)
  qed
qed

lemma os_makedirs_isdir: "os_makedirs tree t p = Inr tree' \<Longrightarrow> os_path_isdir tree' p"
  unfolding os_makedirs_def isdir_iff by (rule makedirs_isdir)

section \<open>Remote retention\<close>

lemma select_remote_zero: "select_remote files 0 = []"
  by (simp add: select_remote_def py_slice_to_def py_bound_def)

lemma select_remote_negative:
  "keep < 0 \<Longrightarrow>
   select_remote files keep = take (nat (- keep)) (py_sort createdTime files)"
  by (simp add: select_remote_def py_slice_to_minus_neg)

lemma py_sort_r312: "py_sort createdTime [r3, r1, r2] = [r1, r2, r3]"
  by (simp add: py_sort_def r1_def r2_def r3_def)

text \<open>
  Claim C1, as the code has it for a positive keep count.  With \<open>0 < keep\<close>,
  \<^verbatim>\<open>delete_old_backups_by_count\<close> sorts the listed folders by creation time, ascending
  (a sorted permutation of the listing), and selects exactly its first
  \<open>length files - keep\<close> entries: every selected entry is at most as recent as every
  retained one, and nothing is selected once \<open>keep\<close> reaches the number of entries.
\<close>

theorem select_remote_oldest:
  assumes "0 < keep"
  shows "select_remote files keep =
           take (length files - nat keep) (py_sort createdTime files)
    \<and> sorted (map createdTime (py_sort createdTime files))
    \<and> mset (py_sort createdTime files) = mset files
    \<and> length (select_remote files keep) = length files - nat keep
    \<and> (\<forall>x \<in> set (select_remote files keep).
         \<forall>y \<in> set (drop (length files - nat keep) (py_sort createdTime files)).
           createdTime x \<le> createdTime y)
    \<and> (int (length files) \<le> keep \<longrightarrow> select_remote files keep = [])"
proof -
  let ?s = "py_sort createdTime files"
  have sel: "select_remote files keep = take (length files - nat keep) ?s"
    using assms by (simp add: select_remote_def py_slice_to_minus_pos py_sort_def)
  have len: "length ?s = length files"
    by (simp add: py_sort_def)
  have ord: "\<forall>x \<in> set (take (length files - nat keep) ?s).
         \<forall>y \<in> set (drop (length files - nat keep) ?s). createdTime x \<le> createdTime y"
    by (intro ballI) (rule sorted_take_drop_le [OF py_sort_sorted])
  show ?thesis
    unfolding sel using len ord by (simp add: py_sort_sorted py_sort_mset)
qed

theorem select_remote_oldest_witness:
  "(0::int) < 1 \<and> select_remote [r3, r1, r2] 1 = [r1, r2]
   \<and> drop (length [r3, r1, r2] - nat 1) (py_sort createdTime [r3, r1, r2]) = [r3]
   \<and> createdTime r1 \<le> createdTime r3 \<and> createdTime r2 \<le> createdTime r3
   \<and> int (length [r3, r1, r2]) \<le> 5 \<and> select_remote [r3, r1, r2] 5 = []"
  using select_remote_oldest [of 1 "[r3, r1, r2]"] select_remote_oldest [of 5 "[r3, r1, r2]"]
  by (simp add: py_sort_r312)

theorem select_remote_nonpositive_counterexample:
  "select_remote [r3, r1, r2] 0 = [] \<and> select_remote [r3, r1, r2] (- 1) = [r1]
   \<and> set (select_remote [r3, r1, r2] 0) \<noteq> set [r3, r1, r2]
   \<and> set (select_remote [r3, r1, r2] (- 1)) \<noteq> set [r3, r1, r2]"
proof -
  have a: "select_remote [r3, r1, r2] 0 = []"
    by (rule select_remote_zero)
  have b: "select_remote [r3, r1, r2] (- 1) = [r1]"
    by (simp add: select_remote_negative py_sort_r312)
  have c: "r3 \<noteq> r1"
    by (simp add: r1_def r3_def)
  show ?thesis
    unfolding a b using c by auto
qed

section \<open>Local retention\<close>

lemma select_local_negative:
  "keep < 0 \<Longrightarrow>
   select_local getctime subs keep =
     drop (length subs - nat (- keep)) (py_sort_reverse getctime subs)"
  by (simp add: select_local_def py_slice_from_neg py_sort_reverse_def)

lemma py_sort_reverse_subs4:
  "py_sort_reverse ctime4 subs4 =
     [[''backup'', ''bot'', ''d4''], [''backup'', ''bot'', ''d3''],
      [''backup'', ''bot'', ''d2''], [''backup'', ''bot'', ''d1'']]"
  by (simp add: py_sort_reverse_def subs4_def ctime4_def)

text \<open>
  Claim C2, as the code has it for a keep count that is not negative.  With
  \<open>0 \<le> keep\<close>, \<^verbatim>\<open>clean_local_backups\<close> sorts the folders by creation time,
  descending (a permutation of the listing whose reversal is sorted), and selects exactly
  the entries at the 0-indexed positions \<open>keep\<close> and beyond: every retained entry is
  at least as recent as every selected one, everything is selected when \<open>keep = 0\<close>
  and nothing once \<open>keep\<close> reaches the number of entries.
\<close>

theorem select_local_beyond_keep:
  assumes "0 \<le> keep"
  shows "select_local getctime subs keep =
           drop (nat keep) (py_sort_reverse getctime subs)
    \<and> sorted (rev (map getctime (py_sort_reverse getctime subs)))
    \<and> mset (py_sort_reverse getctime subs) = mset subs
    \<and> (\<forall>x \<in> set (take (nat keep) (py_sort_reverse getctime subs)).
         \<forall>y \<in> set (select_local getctime subs keep). getctime y \<le> getctime x)
    \<and> (keep = 0 \<longrightarrow>
         select_local getctime subs keep = py_sort_reverse getctime subs)
    \<and> (int (length subs) \<le> keep \<longrightarrow> select_local getctime subs keep = [])"
proof -
  let ?s = "py_sort_reverse getctime subs"
  have sel: "select_local getctime subs keep = drop (nat keep) ?s"
    using assms by (simp add: select_local_def py_slice_from_nonneg)
  have len: "length ?s = length subs"
    by (simp add: py_sort_reverse_def)
  have ord: "\<forall>x \<in> set (take (nat keep) ?s).
         \<forall>y \<in> set (drop (nat keep) ?s). getctime y \<le> getctime x"
    by (intro ballI) (rule sorted_rev_take_drop_ge [OF py_sort_reverse_sorted])
  show ?thesis
    unfolding sel using len ord by (simp add: py_sort_reverse_sorted py_sort_reverse_mset)
qed

theorem select_local_beyond_keep_witness:
  "(0::int) \<le> 2 \<and> select_local ctime4 subs4 2 = [[''backup'', ''bot'', ''d2''], [''backup'', ''bot'', ''d1'']]
   \<and> take (nat 2) (py_sort_reverse ctime4 subs4) = [[''backup'', ''bot'', ''d4''], [''backup'', ''bot'', ''d3'']]
   \<and> ctime4 [''backup'', ''bot'', ''d2''] \<le> ctime4 [''backup'', ''bot'', ''d3'']
   \<and> select_local ctime4 subs4 0 = py_sort_reverse ctime4 subs4
   \<and> int (length subs4) \<le> 4 \<and> select_local ctime4 subs4 4 = []"
  using select_local_beyond_keep [of 2 ctime4 subs4] select_local_beyond_keep [of 0 ctime4 subs4]
    select_local_beyond_keep [of 4 ctime4 subs4]
  by (simp add: py_sort_reverse_subs4) (simp add: subs4_def ctime4_def)

theorem select_local_negative_counterexample:
  "select_local ctime4 subs4 (- 1) = [[''backup'', ''bot'', ''d1'']]
   \<and> set (select_local ctime4 subs4 (- 1)) \<noteq> set subs4"
proof -
  have a: "select_local ctime4 subs4 (- 1) = [[''backup'', ''bot'', ''d1'']]"
    by (simp add: select_local_negative py_sort_reverse_subs4) (simp add: subs4_def)
  show ?thesis
    unfolding a by (simp add: subs4_def)
qed

section \<open>Facts about computations\<close>

lemmas io_defs = io_return_def io_raise_def io_bind_def io_then_def io_try_def io_when_def
  io_fault_def logger_def io_fs_def io_drive_def io_read_def io_get_def

lemma io_then_Inl: "m w = (Inl ex, w') \<Longrightarrow> io_then m k w = (Inl ex, w')"
  by (simp add: io_then_def io_bind_def)

lemma io_then_Inr: "m w = (Inr x, w') \<Longrightarrow> io_then m k w = k w'"
  by (simp add: io_then_def io_bind_def)

lemma io_then_assoc: "io_then (io_then a b) c = io_then a (io_then b c)"
  by (rule ext) (simp add: io_then_def io_bind_def split: prod.splits sum.splits)

lemma io_then_return: "io_then (io_return x) k = k"
  by (rule ext) (simp add: io_then_def io_bind_def io_return_def)

lemma guarded_returns:
  "\<exists>w'. guarded m w = (Inr (), w') \<and> logs w' \<noteq> [] \<and> last (logs w') = (INFO, CycleEnd)"
  by (cases "m w" rule: prod.exhaust [where 'a = "exn + unit"])
     (auto simp: guarded_def io_defs split: sum.splits)

lemma guarded_Inl:
  "m w = (Inl ex, w') \<Longrightarrow>
   guarded m w =
     (Inr (), w'\<lparr>logs := logs w' @ [(ERROR, BackupError ex), (DEBUG, Traceback), (INFO, CycleEnd)]\<rparr>)"
  by (simp add: guarded_def io_defs)

lemma guarded_Inr:
  "m w = (Inr u, w') \<Longrightarrow> guarded m w = (Inr (), w'\<lparr>logs := logs w' @ [(INFO, CycleEnd)]\<rparr>)"
  by (simp add: guarded_def io_defs)

lemma do_backup_alt:
  "do_backup self e =
     io_then (io_fs (\<lambda>t. os_makedirs t (clock e) (cycle_folder self e)))
       (io_then (logger INFO CycleStart) (guarded (backup_steps self e (cycle_zip self e))))"
  by (simp add: do_backup_def cycle_folder_def cycle_zip_def Let_def)

lemma do_backup_started:
  assumes "os_makedirs (fs w) (clock e) (cycle_folder self e) = Inr t"
  shows "do_backup self e w =
     guarded (backup_steps self e (cycle_zip self e)) (w\<lparr>fs := t, logs := logs w @ [(INFO, CycleStart)]\<rparr>)"
  unfolding do_backup_alt using assms by (simp add: io_defs)

section \<open>The sample cycle\<close>

lemma str_nat_numeral:
  "str_nat (numeral k) =
     (if (numeral k :: nat) < 10 then [digit_char (numeral k)]
      else str_nat (numeral k div 10) @ [digit_char (numeral k mod 10)])"
  by (rule str_nat.simps)

lemma str_nat_0: "str_nat 0 = ''0''"
  by (simp add: str_nat.simps [of 0] digit_char_def)

lemma str_nat_1: "str_nat (Suc 0) = ''1''"
  by (simp add: str_nat.simps [of "Suc 0"] digit_char_def)

lemmas fmt_eval = str_nat_numeral str_nat_0 str_nat_1 digit_char_def fmt_02d_def fmt_04d_def
  zero_pad_def

lemma weekday_env0: "weekday (now env0) = 1"
  by (simp add: weekday_def env0_def ymd2ord_def days_before_year_def days_before_month_def
      days_in_month_def is_leap_def upt_rec)

lemma local_name_env0: "local_name (now env0) = ''mardi-03-novembre-2026-14h05''"
  by (simp add: local_name_def weekday_env0 jours_def mois_def) (simp add: env0_def fmt_eval)

lemma zip_name_env0:
  "zip_name (zip_prefix bot0) (utcnow env0) = ''backup-bot_20261103_130509.zip''"
  by (simp add: zip_name_def strftime_stamp_def bot0_def env0_def fmt_eval)

lemma cycle_folder_env0:
  "cycle_folder bot0 e = [''backup'', ''Bot'', local_name (now e)]"
  by (simp add: cycle_folder_def bot0_def)

lemma makedirs_fs0:
  "os_makedirs (fs w0) (clock env0) (cycle_folder bot0 env0) = Inr fs1"
  by (simp add: cycle_folder_env0 local_name_env0)
     (simp add: os_makedirs_def w0_def env0_def fs0_def fs1_def)

lemma makedirs_blocked:
  "os_makedirs (fs w_blocked) (clock env0) (cycle_folder bot0 env0) = Inl FileExistsError"
  by (simp add: cycle_folder_env0 local_name_env0)
     (simp add: os_makedirs_def w_blocked_def)

section \<open>A cycle and its caller\<close>

text \<open>
  Claim C5, as the code has it.  When \<^verbatim>\<open>os.makedirs\<close> makes the local folder of the cycle,
  \<^verbatim>\<open>do_backup\<close> returns to its caller without an exception, whatever the later steps raise,
  and the last record of the log is the end marker.  When \<^verbatim>\<open>os.makedirs\<close> raises, which it
  does before the \<^verbatim>\<open>try\<close> block, the exception leaves \<^verbatim>\<open>do_backup\<close> and nothing is logged.
\<close>

theorem do_backup_outcome:
  "(os_makedirs (fs w) (clock e) (cycle_folder self e) = Inr t \<longrightarrow>
      (\<exists>w'. do_backup self e w = (Inr (), w') \<and> logs w' \<noteq> []
         \<and> last (logs w') = (INFO, CycleEnd)))
   \<and> (os_makedirs (fs w) (clock e) (cycle_folder self e) = Inl ex \<longrightarrow>
      do_backup self e w = (Inl ex, w))"
proof (intro conjI impI)
  assume "os_makedirs (fs w) (clock e) (cycle_folder self e) = Inr t"
  from do_backup_started [OF this] guarded_returns
  show "\<exists>w'. do_backup self e w = (Inr (), w') \<and> logs w' \<noteq> [] \<and> last (logs w') = (INFO, CycleEnd)"
    by simp
next
  assume "os_makedirs (fs w) (clock e) (cycle_folder self e) = Inl ex"
  then show "do_backup self e w = (Inl ex, w)"
    unfolding do_backup_alt by (simp add: io_defs)
qed

theorem do_backup_outcome_witness:
  "os_makedirs (fs w0) (clock env0) (cycle_folder bot0 env0) = Inr fs1
   \<and> (\<exists>w'. do_backup bot0 env0 w0 = (Inr (), w') \<and> logs w' \<noteq> []
         \<and> last (logs w') = (INFO, CycleEnd))
   \<and> os_makedirs (fs w_blocked) (clock env0) (cycle_folder bot0 env0) = Inl FileExistsError
   \<and> do_backup bot0 env0 w_blocked = (Inl FileExistsError, w_blocked)"
  using do_backup_outcome [of w0 env0 bot0 fs1] do_backup_outcome [of w_blocked env0 bot0 _ FileExistsError]
    makedirs_fs0 makedirs_blocked by simp

theorem do_backup_raises_counterexample:
  "do_backup bot0 env0 w_blocked = (Inl FileExistsError, w_blocked) \<and> logs w_blocked = []"
proof -
  have "do_backup bot0 env0 w_blocked = (Inl FileExistsError, w_blocked)"
    unfolding do_backup_alt using makedirs_blocked by (simp add: io_defs)
  then show ?thesis
    by (simp add: w_blocked_def)
qed

section \<open>Steps that delete nothing\<close>

lemma grows_refl: "grows w w"
  by (simp add: grows_def)

lemma grows_trans: "grows w w' \<Longrightarrow> grows w' w'' \<Longrightarrow> grows w w''"
  by (auto simp: grows_def)

lemma grows_logs: "grows w (w'\<lparr>logs := l\<rparr>) = grows w w'"
  by (simp add: grows_def)

lemma steady_return: "steady (io_return x)"
  by (simp add: steady_def io_return_def grows_refl)

lemma steady_raise: "steady (io_raise ex)"
  by (simp add: steady_def io_raise_def grows_refl)

lemma steady_logger: "steady (logger lvl msg)"
  by (auto simp: steady_def logger_def grows_def)

lemma steady_get: "steady (io_get f)"
  by (auto simp: steady_def io_get_def grows_refl)

lemma steady_read: "steady (io_read f)"
  by (auto simp: steady_def io_read_def grows_refl)

lemma steady_fault: "steady (io_fault f)"
  by (cases f) (simp_all add: io_fault_def steady_return steady_raise)

lemma steady_bind:
  assumes "steady m" and "\<And>x. steady (f x)"
  shows "steady (io_bind m f)"
  unfolding steady_def
proof (intro allI impI)
  fix w r w'
  assume b: "io_bind m f w = (r, w')"
  obtain r1 w1 where m: "m w = (r1, w1)" by (cases "m w")
  with assms(1) have g1: "grows w w1" by (simp add: steady_def)
  show "grows w w'"
  proof (cases r1)
    case (Inl ex)
    with b m g1 show ?thesis by (simp add: io_bind_def)
  next
    case (Inr x)
    with b m have "f x w1 = (r, w')" by (simp add: io_bind_def)
    with assms(2) have "grows w1 w'" by (simp add: steady_def)
    with g1 show ?thesis by (rule grows_trans)
  qed
qed

lemma steady_then: "steady m \<Longrightarrow> steady k \<Longrightarrow> steady (io_then m k)"
  by (simp add: io_then_def steady_bind)

lemma steady_when: "steady m \<Longrightarrow> steady (io_when b m)"
  by (simp add: io_when_def steady_return)

lemma steady_fs:
  assumes "\<And>t t' q. f t = Inr t' \<Longrightarrow> os_path_isdir t q \<Longrightarrow> os_path_isdir t' q"
  shows "steady (io_fs f)"
  using assms by (auto simp: steady_def io_fs_def grows_def split: sum.splits)

lemma steady_drive:
  assumes "\<And>d d'. f d = Inr d' \<Longrightarrow> set d \<subseteq> set d'"
  shows "steady (io_drive f)"
  using assms by (auto simp: steady_def io_drive_def grows_def split: sum.splits)

lemma steady_log_all: "steady (log_all lvl ms)"
  by (induction ms) (simp_all add: steady_return steady_then steady_logger)

lemma steady_if: "steady m \<Longrightarrow> steady k \<Longrightarrow> steady (if b then m else k)"
  by simp

lemma steady_remove: "steady (io_fs (\<lambda>t. os_remove t p))"
  by (rule steady_fs) (rule os_remove_keeps_dirs)

lemma steady_write: "steady (io_fs (\<lambda>t. write_file t p d))"
  by (rule steady_fs) (rule write_file_keeps_dirs)

lemmas steady_intros = steady_return steady_raise steady_logger steady_get steady_read
  steady_fault steady_bind steady_then steady_when steady_log_all steady_if steady_remove
  steady_write

lemma steady_custom_zip_folder: "steady (custom_zip_folder self source_folder zip_path)"
  unfolding custom_zip_folder_def remove_old_zip_def write_zip_def Let_def
  by (intro steady_intros)

lemma steady_authenticate: "steady (authenticate self e)"
  unfolding authenticate_def by (intro steady_intros)

lemma steady_create_drive_folder: "steady (create_drive_folder self e nm)"
  unfolding create_drive_folder_def by (intro steady_intros steady_drive) auto

lemma steady_upload_file_to_folder: "steady (upload_file_to_folder self e folder_id file_path)"
  unfolding upload_file_to_folder_def by (intro steady_intros steady_drive) auto

lemma steady_before_pruning: "steady (before_pruning self e zip_path)"
  unfolding before_pruning_def
  by (intro steady_intros steady_custom_zip_folder steady_authenticate
      steady_create_drive_folder steady_upload_file_to_folder)

section \<open>A cycle that aborts before the pruning\<close>

lemma backup_steps_aborted:
  "before_pruning self e zip_path w = (Inl ex, w') \<Longrightarrow>
   backup_steps self e zip_path w = (Inl ex, w')"
  by (simp add: backup_steps_def io_then_Inl)

lemma before_pruning_aborts:
  assumes "credentials_fault e \<noteq> None \<or> build_fault e \<noteq> None \<or> create_fault e \<noteq> None
    \<or> upload_fault e \<noteq> None"
  shows "\<exists>ex w'. before_pruning self e zip_path w = (Inl ex, w')"
proof (cases "custom_zip_folder self (folder_to_zip self) zip_path w")
  case (Pair r w1)
  show ?thesis
  proof (cases r)
    case (Inl ex)
    with Pair show ?thesis
      by (auto simp: before_pruning_def io_then_Inl)
  next
    case (Inr u)
    with Pair assms show ?thesis
      by (auto simp: before_pruning_def authenticate_def create_drive_folder_def
          upload_file_to_folder_def io_defs split: sum.splits option.splits)
  qed
qed

text \<open>
  Claim C3.  Let \<^verbatim>\<open>os.makedirs\<close> have made the local folder and let one of the steps before
  the local pruning (archive, credentials, service, Drive folder, upload) raise \<open>ex\<close> in
  the world \<open>w2\<close>.  Then \<^verbatim>\<open>do_backup\<close> ends in \<open>w2\<close> with nothing but the error, the
  traceback and the end marker added to the log: neither pruning runs.  Every directory
  of the world before the cycle, so every local backup entry, is still a directory, and
  every Drive file of before, so every remote container, is still on the Drive.
\<close>

theorem aborted_cycle_prunes_nothing:
  assumes "os_makedirs (fs w) (clock e) (cycle_folder self e) = Inr t"
    and "before_pruning self e (cycle_zip self e)
           (w\<lparr>fs := t, logs := logs w @ [(INFO, CycleStart)]\<rparr>) = (Inl ex, w2)"
  shows "do_backup self e w =
           (Inr (), w2\<lparr>logs := logs w2 @
              [(ERROR, BackupError ex), (DEBUG, Traceback), (INFO, CycleEnd)]\<rparr>)
    \<and> (\<forall>p. os_path_isdir (fs w) p \<longrightarrow> os_path_isdir (fs w2) p)
    \<and> set (drive w) \<subseteq> set (drive w2)"
proof -
  let ?w1 = "w\<lparr>fs := t, logs := logs w @ [(INFO, CycleStart)]\<rparr>"
  have "grows w ?w1"
    using os_makedirs_keeps_dirs [OF assms(1)] by (simp add: grows_def)
  moreover have "grows ?w1 w2"
    using steady_before_pruning assms(2) unfolding steady_def by blast
  ultimately have g: "grows w w2"
    by (rule grows_trans)
  have "do_backup self e w = guarded (backup_steps self e (cycle_zip self e)) ?w1"
    by (rule do_backup_started [OF assms(1)])
  also have "\<dots> = (Inr (), w2\<lparr>logs := logs w2 @
      [(ERROR, BackupError ex), (DEBUG, Traceback), (INFO, CycleEnd)]\<rparr>)"
    using backup_steps_aborted [OF assms(2)]
    by (rule guarded_Inl [where m = "backup_steps self e (cycle_zip self e)"])
  finally show ?thesis
    using g by (simp add: grows_def)
qed

section \<open>Facts about the archiver\<close>

lemma log_all_eq: "log_all lvl ms w = (Inr (), w\<lparr>logs := logs w @ map (Pair lvl) ms\<rparr>)"
  by (induction ms arbitrary: w) (simp_all add: io_defs)

lemma remove_old_zip_absent:
  "\<not> os_path_exists (fs w) zip_path \<Longrightarrow> remove_old_zip zip_path w = (Inr (), w)"
  by (simp add: remove_old_zip_def io_defs)




lemma write_zip_open_fails:
  "os_path_isdir (fs w) abs_src \<Longrightarrow> write_file (fs w) zip_path (Archive []) = Inl ex \<Longrightarrow>
   write_zip self abs_src zip_path w = (Inl ex, w)"
  by (simp add: write_zip_def io_defs)

lemma write_file_again:
  assumes "write_file tree p d = Inr tree'"
  shows "\<exists>tree''. write_file tree' p d' = Inr tree''"
proof -
  from assms obtain d0 t cs where ne: "p \<noteq> []"
    and par: "lookup tree (butlast p) = Some (Dir d0 t cs)"
    and t': "tree' = alter (put_entry (File (last p) d)) (butlast p) tree"
    by (auto simp: write_file_def split: if_splits option.splits node.splits)
  have "os_path_isdir tree' (butlast p)"
    unfolding t' isdir_iff lookup_alter_same [OF par] by simp
  moreover have "\<not> os_path_isdir tree' p"
    using write_file_lookup [OF assms] by (simp add: isdir_iff)
  ultimately show ?thesis
    using ne by (rule write_file_ok [rotated])
qed

lemma write_zip_ok:
  assumes "os_path_isdir (fs w) abs_src" and "write_file (fs w) zip_path (Archive []) = Inr t1"
  shows "\<exists>t2. write_file t1 zip_path (Archive (written (walk_source self abs_src t1))) = Inr t2
    \<and> write_zip self abs_src zip_path w =
        (Inr (), w\<lparr>fs := t2,
           logs := logs w @ map (Pair DEBUG) (map Excluded (skipped (walk_source self abs_src t1)))
             @ [(INFO, ZipCreated (length (written (walk_source self abs_src t1))))]\<rparr>)"
proof -
  let ?actions = "walk_source self abs_src t1"
  from write_file_again [OF assms(2)] obtain t2 where
    t2: "write_file t1 zip_path (Archive (written ?actions)) = Inr t2" by blast
  have "os_path_getsize t2 zip_path = Inr ()"
    using write_file_lookup [OF t2] by (simp add: os_path_getsize_def)
  with assms t2 show ?thesis
    by (simp add: write_zip_def io_defs log_all_eq)
qed

lemmas tree_eval = os_path_exists_def os_path_isdir_def os_path_getsize_def os_remove_def
  write_file_def put_entry_def remove_entry_def open_media_def

lemma lookup_fs1_src: "lookup fs1 [''srv'', ''bot''] = Some src0"
  by (simp add: fs1_def src0_def)

lemma zip_walk_src0:
  "zip_walk (excluded_folders bot0) (excluded_extensions bot0) [''srv'', ''bot'']
     [''srv'', ''bot''] src0 =
     [Written [''main.py''] (Bytes ''m''), Skipped [''srv'', ''bot'', ''debug.log''],
      Written [''src'', ''a.py''] (Bytes ''a''), Skipped [''srv'', ''bot'', ''src'', ''a.pyc''],
      Written [''src'', ''deep'', ''d.txt''] (Bytes ''d'')]"
  by (simp add: src0_def bot0_def file_action_def excluded_file_def suffix_to_prefix Let_def)

lemma custom_zip_folder_fresh:
  assumes "\<not> os_path_exists (fs w) zip_path" and "os_path_isdir (fs w) source_folder"
    and "zip_path \<noteq> []" and "os_path_isdir (fs w) (butlast zip_path)"
  shows "\<exists>w' d. custom_zip_folder self source_folder zip_path w = (Inr (), w')
    \<and> lookup (fs w') zip_path = Some (File (last zip_path) d) \<and> drive w' = drive w"
proof -
  let ?wa = "w\<lparr>logs := logs w @ [(INFO, Zipping source_folder zip_path)]\<rparr>"
  have nd: "\<not> os_path_isdir (fs w) zip_path"
    using assms(1) by (auto simp: os_path_exists_def isdir_iff)
  from write_file_ok [OF assms(3,4) nd] obtain t1 where
    t1: "write_file (fs ?wa) zip_path (Archive []) = Inr t1" by auto
  have src: "os_path_isdir (fs ?wa) source_folder"
    using assms(2) by simp
  from write_zip_ok [OF src t1, of self] obtain t2 where
    t2: "write_file t1 zip_path (Archive (written (walk_source self source_folder t1))) = Inr t2"
    and wz: "write_zip self source_folder zip_path ?wa =
        (Inr (), ?wa\<lparr>fs := t2,
           logs := logs ?wa @ map (Pair DEBUG) (map Excluded (skipped (walk_source self source_folder t1)))
             @ [(INFO, ZipCreated (length (written (walk_source self source_folder t1))))]\<rparr>)"
    by blast
  have rm: "remove_old_zip zip_path ?wa = (Inr (), ?wa)"
    using assms(1) by (simp add: remove_old_zip_absent)
  have "custom_zip_folder self source_folder zip_path w = write_zip self source_folder zip_path ?wa"
    using rm by (simp add: custom_zip_folder_def io_defs)
  with wz write_file_lookup [OF t2] show ?thesis
    by simp
qed

lemma before_pruning_upload_fails:
  assumes "custom_zip_folder self (folder_to_zip self) zip_path w = (Inr (), w')"
    and "lookup (fs w') zip_path = Some (File f d)"
    and "credentials_fault e = None" and "build_fault e = None" and "create_fault e = None"
    and "upload_fault e = Some ex"
  shows "fst (before_pruning self e zip_path w) = Inl ex"
  using assms
  by (simp add: before_pruning_def authenticate_def create_drive_folder_def
      upload_file_to_folder_def open_media_def io_defs)

section \<open>The sample cycle with a failing upload\<close>

lemma cycle_zip_env0:
  "cycle_zip bot0 env0 = [''backup'', ''Bot'', ''mardi-03-novembre-2026-14h05'',
     ''backup-bot_20261103_130509.zip'']"
  by (simp add: cycle_zip_def cycle_folder_env0 local_name_env0 zip_name_env0)

lemma env_upload_fails_names:
  "cycle_folder bot0 env_upload_fails = cycle_folder bot0 env0"
  "cycle_zip bot0 env_upload_fails = cycle_zip bot0 env0"
  "clock env_upload_fails = clock env0"
  by (simp_all add: cycle_zip_def cycle_folder_def env_upload_fails_def)

lemma before_pruning_env_upload_fails:
  "fst (before_pruning bot0 env_upload_fails (cycle_zip bot0 env_upload_fails)
          (w0\<lparr>fs := fs1, logs := logs w0 @ [(INFO, CycleStart)]\<rparr>)) = Inl (HttpError 500)"
proof -
  let ?w1 = "w0\<lparr>fs := fs1, logs := logs w0 @ [(INFO, CycleStart)]\<rparr>"
  let ?zp = "cycle_zip bot0 env0"
  have a: "\<not> os_path_exists (fs ?w1) ?zp"
    by (simp add: cycle_zip_env0 os_path_exists_def fs1_def)
  have b: "os_path_isdir (fs ?w1) (folder_to_zip bot0)"
    by (simp add: bot0_def os_path_isdir_def fs1_def src0_def)
  have c: "?zp \<noteq> []"
    by (simp add: cycle_zip_env0)
  have d: "os_path_isdir (fs ?w1) (butlast ?zp)"
    by (simp add: cycle_zip_env0 os_path_isdir_def fs1_def)
  from custom_zip_folder_fresh [OF a b c d, of bot0] obtain w' dd where
    "custom_zip_folder bot0 (folder_to_zip bot0) ?zp ?w1 = (Inr (), w')"
    "lookup (fs w') ?zp = Some (File (last ?zp) dd)" by blast
  then show ?thesis
    unfolding env_upload_fails_names
    by (rule before_pruning_upload_fails) (simp_all add: env_upload_fails_def env0_def)
qed

theorem aborted_cycle_prunes_nothing_witness:
  "os_makedirs (fs w0) (clock env_upload_fails) (cycle_folder bot0 env_upload_fails) = Inr fs1
   \<and> fst (before_pruning bot0 env_upload_fails (cycle_zip bot0 env_upload_fails)
          (w0\<lparr>fs := fs1, logs := logs w0 @ [(INFO, CycleStart)]\<rparr>)) = Inl (HttpError 500)
   \<and> fst (do_backup bot0 env_upload_fails w0) = Inr ()
   \<and> os_path_isdir (fs w0) [''backup'', ''Bot'', ''old1'']
   \<and> os_path_isdir (fs (snd (do_backup bot0 env_upload_fails w0))) [''backup'', ''Bot'', ''old1'']
   \<and> folder0 ''f1'' ''2024-01-01'' \<in> set (drive (snd (do_backup bot0 env_upload_fails w0)))"
proof -
  let ?w1 = "w0\<lparr>fs := fs1, logs := logs w0 @ [(INFO, CycleStart)]\<rparr>"
  let ?r = "before_pruning bot0 env_upload_fails (cycle_zip bot0 env_upload_fails) ?w1"
  have mk: "os_makedirs (fs w0) (clock env_upload_fails) (cycle_folder bot0 env_upload_fails) = Inr fs1"
    unfolding env_upload_fails_names by (rule makedirs_fs0)
  have ab: "?r = (Inl (HttpError 500), snd ?r)"
    using before_pruning_env_upload_fails by (simp add: prod_eq_iff)
  have old: "os_path_isdir (fs w0) [''backup'', ''Bot'', ''old1'']"
    by (simp add: w0_def fs0_def os_path_isdir_def)
  have f1: "folder0 ''f1'' ''2024-01-01'' \<in> set (drive w0)"
    by (simp add: w0_def)
  from aborted_cycle_prunes_nothing [OF mk ab] mk before_pruning_env_upload_fails old f1
  show ?thesis
    by auto
qed

section \<open>Facts about the pruning routines\<close>

lemma clean_local_backups_eq:
  "clean_local_backups self e w =
     (case os_listdir (fs w) (local_backup_root self) of
        Inl ex \<Rightarrow> (Inl ex, w)
      | Inr names \<Rightarrow>
          remove_locals e
            (select_local (os_path_getctime (fs w))
               (local_subs (fs w) (local_backup_root self) names) (local_keep self)) w)"
  by (simp add: clean_local_backups_def io_defs Let_def split: sum.splits)

lemma delete_old_backups_by_count_eq:
  "delete_old_backups_by_count self e w =
     (case list_fault e of
        Some ex \<Rightarrow> (Inl ex, w\<lparr>logs := logs w @ [(DEBUG, ListingDriveFolders)]\<rparr>)
      | None \<Rightarrow>
          delete_remotes e
            (select_remote (files_list (drive w) (parent_folder_id self) 1000) (drive_keep self))
            (w\<lparr>logs := logs w @ [(DEBUG, ListingDriveFolders)]\<rparr>))"
  by (simp add: delete_old_backups_by_count_def io_defs split: option.splits)

lemma listdir_w0:
  "os_listdir (fs w0) [''backup'', ''Bot''] = Inr [''backup.log'', ''old1'', ''old2'', ''old3'']"
  by (simp add: os_listdir_def w0_def fs0_def)

lemma files_list_w0:
  "files_list (drive w0) ''P'' 1000 =
     [to_entry (folder0 ''f2'' ''2024-01-02''), to_entry (folder0 ''f1'' ''2024-01-01''),
      to_entry (folder0 ''f3'' ''2024-01-03'')]"
  by (simp add: files_list_def first_page_def w0_def matches_query_def folder0_def)

lemma selected_remote_w0:
  "select_remote (files_list (drive w0) ''P'' 1000) 1 =
     [to_entry (folder0 ''f1'' ''2024-01-01''), to_entry (folder0 ''f2'' ''2024-01-02'')]"
  unfolding files_list_w0
  by (simp add: select_remote_def py_sort_def py_slice_to_def py_bound_def to_entry_def
      folder0_def)

section \<open>Facts about the removal of a tree\<close>

lemma alter_reflects_exists:
  assumes "\<And>cs x c. find (\<lambda>c. node_name c = x) (g cs) = Some c \<Longrightarrow>
             find (\<lambda>c. node_name c = x) cs = Some c"
    and "lookup (alter g q n) p = Some m'"
  shows "\<exists>m. lookup n p = Some m"
  using assms(2)
proof (induction p arbitrary: n q m')
  case Nil
  then show ?case by auto
next
  case (Cons x p)
  then obtain d t cs where n: "n = Dir d t cs"
    by (cases n; cases q) auto
  show ?case
  proof (cases q)
    case Nil
    with Cons.prems n obtain c where "find (\<lambda>c. node_name c = x) (g cs) = Some c"
      and lc: "lookup c p = Some m'"
      by (auto split: option.splits)
    from assms(1) [OF this(1)] lc n show ?thesis by auto
  next
    case (Cons y q')
    with Cons.prems n obtain c where c: "find (\<lambda>c. node_name c = x) cs = Some c"
      and lc: "lookup (if node_name c = y then alter g q' c else c) p = Some m'"
      by (auto simp: find_name_map split: option.splits)
    have cx: "node_name c = x"
      using find_name_Some [OF c] by simp
    show ?thesis
    proof (cases "x = y")
      case True
      with lc cx have "lookup (alter g q' c) p = Some m'" by simp
      from Cons.IH [OF this] show ?thesis
        using n c by simp
    next
      case False
      with lc cx have "lookup c p = Some m'" by simp
      then show ?thesis
        using n c by auto
    qed
  qed
qed

text \<open>Rewriting the entry \<open>x\<close> of the directory at \<open>par\<close> leaves every path off \<open>par @ [x]\<close> alone.\<close>

lemma lookup_alter_apart:
  assumes "\<And>cs y. y \<noteq> x \<Longrightarrow>
             find (\<lambda>c. node_name c = y) (g cs) = find (\<lambda>c. node_name c = y) cs"
    and "\<not> prefix (par @ [x]) q" and "\<not> prefix q (par @ [x])"
  shows "lookup (alter g par n) q = lookup n q"
  using assms(2,3)
proof (induction par arbitrary: n q)
  case Nil
  then obtain y q' where q: "q = y # q'" and "y \<noteq> x"
    by (cases q) auto
  then show ?case
    using assms(1) by (cases n) auto
next
  case (Cons z par)
  then obtain y q' where q: "q = y # q'"
    by (cases q) auto
  show ?case
  proof (cases n)
    case (File f d)
    then show ?thesis by simp
  next
    case (Dir d t cs)
    show ?thesis
    proof (cases "find (\<lambda>c. node_name c = y) cs")
      case None
      with Dir q show ?thesis by (simp add: find_name_map)
    next
      case (Some c)
      have cy: "node_name c = y"
        using find_name_Some [OF Some] by simp
      show ?thesis
      proof (cases "y = z")
        case True
        with Cons.prems q have "\<not> prefix (par @ [x]) q'" "\<not> prefix q' (par @ [x])"
          by auto
        from Cons.IH [OF this] Dir q Some cy True show ?thesis
          by (simp add: find_name_map)
      next
        case False
        with Dir q Some cy show ?thesis
          by (simp add: find_name_map)
      qed
    qed
  qed
qed

lemma node_name_rm_node: "rm_node bad p n = Some (ex, n') \<Longrightarrow> node_name n' = node_name n"
  by (cases n) (auto split: option.splits)

lemma find_replace_entry_other:
  "y \<noteq> node_name n \<Longrightarrow>
   find (\<lambda>c. node_name c = y) (replace_entry n cs) = find (\<lambda>c. node_name c = y) cs"
  by (simp add: replace_entry_def find_name_replace)

lemma find_remove_entry_other:
  "y \<noteq> x \<Longrightarrow>
   find (\<lambda>c. node_name c = y) (remove_entry x cs) = find (\<lambda>c. node_name c = y) cs"
  by (simp add: remove_entry_def find_name_filter)

lemma lookup_name:
  "lookup n p = Some m \<Longrightarrow> p \<noteq> [] \<Longrightarrow> node_name m = last p"
  using lookup_parent [of n p m] find_name_Some by blast

lemma shutil_rmtree_apart:
  assumes "shutil_rmtree bad tree p = (r, tree')" and "\<not> prefix p q" and "\<not> prefix q p"
  shows "lookup tree' q = lookup tree q"
proof -
  have ne: "p \<noteq> []"
    using assms(2) by auto
  then have p: "butlast p @ [last p] = p" by simp
  show ?thesis
  proof (cases "lookup tree p")
    case None
    with assms(1) show ?thesis by (simp add: shutil_rmtree_def)
  next
    case (Some m)
    show ?thesis
    proof (cases m)
      case (File f d)
      with Some assms(1) show ?thesis by (simp add: shutil_rmtree_def)
    next
      case (Dir d t cs)
      show ?thesis
      proof (cases "rm_node bad p (Dir d t cs)")
        case None
        with Some Dir assms(1) ne
        have t': "tree' = alter (remove_entry (last p)) (butlast p) tree"
          by (simp add: shutil_rmtree_def)
        show ?thesis
          unfolding t' using assms(2,3)
          by (intro lookup_alter_apart [where x = "last p"] find_remove_entry_other)
             (simp_all add: p)
      next
        case (Some a)
        obtain ex n' where a: "a = (ex, n')" by (cases a)
        with Some \<open>lookup tree p = Some m\<close> Dir assms(1) ne
        have t': "tree' = alter (replace_entry n') (butlast p) tree"
          by (simp add: shutil_rmtree_def)
        have "node_name n' = last p"
          using node_name_rm_node [of bad p "Dir d t cs" ex n'] Some a
            lookup_name [OF \<open>lookup tree p = Some m\<close> ne] Dir by simp
        then show ?thesis
          unfolding t' using assms(2,3)
          by (intro lookup_alter_apart [where x = "last p"] find_replace_entry_other)
             (simp_all add: p)
      qed
    qed
  qed
qed

lemma shutil_rmtree_done:
  assumes "shutil_rmtree bad tree p = (None, tree')"
  shows "p \<noteq> [] \<and> tree' = alter (remove_entry (last p)) (butlast p) tree
    \<and> (\<exists>d t cs. lookup tree p = Some (Dir d t cs))"
  using assms
  by (auto simp: shutil_rmtree_def split: option.splits node.splits if_splits prod.splits)

lemma shutil_rmtree_gone:
  assumes "shutil_rmtree bad tree p = (None, tree')"
  shows "lookup tree' p = None"
proof -
  from shutil_rmtree_done [OF assms] obtain d t cs where ne: "p \<noteq> []"
    and t': "tree' = alter (remove_entry (last p)) (butlast p) tree"
    and m: "lookup tree p = Some (Dir d t cs)" by blast
  from lookup_parent [OF m ne] obtain d' t0 cs0 where
    par: "lookup tree (butlast p) = Some (Dir d' t0 cs0)" by blast
  have "lookup tree' (butlast p @ [last p]) = None"
    unfolding t' lookup_snoc lookup_alter_same [OF par]
    by (simp add: remove_entry_def find_name_filter)
  with ne show ?thesis by simp
qed

lemma shutil_rmtree_reflects:
  assumes "shutil_rmtree bad tree p = (None, tree')" and "lookup tree' q = Some m'"
  shows "\<exists>m. lookup tree q = Some m"
proof -
  from shutil_rmtree_done [OF assms(1)]
  have t': "tree' = alter (remove_entry (last p)) (butlast p) tree" by blast
  have "\<And>cs x c. find (\<lambda>c. node_name c = x) (remove_entry (last p) cs) = Some c \<Longrightarrow>
          find (\<lambda>c. node_name c = x) cs = Some c"
    by (simp add: remove_entry_def find_name_filter split: if_splits)
  from alter_reflects_exists [of "remove_entry (last p)", OF this] assms(2) show ?thesis
    unfolding t' by blast
qed

section \<open>The two deletion loops\<close>

lemma io_rmtree_ok:
  "shutil_rmtree bad (fs w) p = (None, t') \<Longrightarrow> io_rmtree bad p w = (Inr (), w\<lparr>fs := t'\<rparr>)"
  by (simp add: io_rmtree_def)

lemma io_rmtree_fails:
  "shutil_rmtree bad (fs w) p = (Some ex, t') \<Longrightarrow> io_rmtree bad p w = (Inl ex, w\<lparr>fs := t'\<rparr>)"
  by (simp add: io_rmtree_def)

lemma remove_locals_ok_step:
  "shutil_rmtree (rmtree_fault e) (fs w) old = (None, t') \<Longrightarrow>
   remove_locals e (old # rest) w =
     remove_locals e rest (w\<lparr>fs := t', logs := logs w @ [(INFO, RemovedLocal old)]\<rparr>)"
  by (simp add: io_rmtree_ok io_then_Inr logger_def io_then_def io_bind_def)

lemma remove_locals_fails_step:
  "shutil_rmtree (rmtree_fault e) (fs w) old = (Some ex, t') \<Longrightarrow>
   remove_locals e (old # rest) w = (Inl ex, w\<lparr>fs := t'\<rparr>)"
  by (simp add: io_rmtree_fails io_then_Inl)

lemma delete_remotes_ok_step:
  "delete_fault e (entry_id f) = None \<Longrightarrow> files_delete (drive w) (entry_id f) = Inr store' \<Longrightarrow>
   delete_remotes e (f # rest) w =
     delete_remotes e rest
       (w\<lparr>drive := store',
          logs := logs w @ [(INFO, RemovedDrive (entry_name f) (createdTime f))]\<rparr>)"
  by (simp add: io_defs)

lemma delete_remotes_fails_step:
  assumes "delete_fault e (entry_id f) = Some ex
    \<or> (delete_fault e (entry_id f) = None \<and> files_delete (drive w) (entry_id f) = Inl ex)"
  shows "delete_remotes e (f # rest) w = (Inl ex, w)"
  using assms by (auto simp: io_defs)

lemma remove_locals_append:
  "remove_locals e (pre @ rest) = io_then (remove_locals e pre) (remove_locals e rest)"
  by (induction pre) (simp_all add: io_then_return io_then_assoc)

lemma delete_remotes_append:
  "delete_remotes e (pre @ rest) = io_then (delete_remotes e pre) (delete_remotes e rest)"
  by (induction pre) (simp_all add: io_then_return io_then_assoc)

lemma remove_locals_Cons_ok:
  assumes "remove_locals e (old # rest) w = (Inr (), w1)"
  shows "\<exists>t'. shutil_rmtree (rmtree_fault e) (fs w) old = (None, t')
    \<and> remove_locals e rest (w\<lparr>fs := t', logs := logs w @ [(INFO, RemovedLocal old)]\<rparr>) = (Inr (), w1)"
proof (cases "shutil_rmtree (rmtree_fault e) (fs w) old")
  case (Pair r t')
  show ?thesis
  proof (cases r)
    case None
    with Pair assms show ?thesis by (simp add: remove_locals_ok_step del: remove_locals.simps)
  next
    case (Some ex)
    with Pair assms show ?thesis by (simp add: remove_locals_fails_step del: remove_locals.simps)
  qed
qed

lemma remove_locals_reflects:
  "remove_locals e ps w = (Inr (), w1) \<Longrightarrow> lookup (fs w1) q = Some m' \<Longrightarrow>
   \<exists>m. lookup (fs w) q = Some m"
proof (induction ps arbitrary: w)
  case Nil
  then show ?case by (simp add: io_return_def)
next
  case (Cons old ps)
  from remove_locals_Cons_ok [OF Cons.prems(1)] obtain t' where
    rm: "shutil_rmtree (rmtree_fault e) (fs w) old = (None, t')"
    and rest: "remove_locals e ps (w\<lparr>fs := t', logs := logs w @ [(INFO, RemovedLocal old)]\<rparr>)
      = (Inr (), w1)" by blast
  from Cons.IH [OF rest Cons.prems(2)] obtain m where "lookup t' q = Some m" by auto
  from shutil_rmtree_reflects [OF rm this] show ?case .
qed

lemma remove_locals_gone:
  "remove_locals e ps w = (Inr (), w1) \<Longrightarrow> p \<in> set ps \<Longrightarrow> \<not> os_path_exists (fs w1) p"
proof (induction ps arbitrary: w)
  case Nil
  then show ?case by simp
next
  case (Cons old ps)
  from remove_locals_Cons_ok [OF Cons.prems(1)] obtain t' where
    rm: "shutil_rmtree (rmtree_fault e) (fs w) old = (None, t')"
    and rest: "remove_locals e ps (w\<lparr>fs := t', logs := logs w @ [(INFO, RemovedLocal old)]\<rparr>)
      = (Inr (), w1)" by blast
  show ?case
  proof (cases "p \<in> set ps")
    case True
    from Cons.IH [OF rest this] show ?thesis .
  next
    case False
    with Cons.prems(2) have "p = old" by simp
    with shutil_rmtree_gone [OF rm] have "lookup t' p = None" by simp
    with remove_locals_reflects [OF rest, of p] show ?thesis
      by (cases "lookup (fs w1) p") (auto simp: os_path_exists_def)
  qed
qed

lemma remove_locals_logs:
  "remove_locals e ps w = (Inr (), w1) \<Longrightarrow>
   logs w1 = logs w @ map (\<lambda>p. (INFO, RemovedLocal p)) ps"
proof (induction ps arbitrary: w)
  case Nil
  then show ?case by (simp add: io_return_def)
next
  case (Cons old ps)
  from remove_locals_Cons_ok [OF Cons.prems(1)] obtain t' where
    rest: "remove_locals e ps (w\<lparr>fs := t', logs := logs w @ [(INFO, RemovedLocal old)]\<rparr>)
      = (Inr (), w1)" by blast
  from Cons.IH [OF rest] show ?case by simp
qed

lemma delete_remotes_Cons_ok:
  assumes "delete_remotes e (f # rest) w = (Inr (), w2)"
  shows "\<exists>store'. delete_fault e (entry_id f) = None
    \<and> files_delete (drive w) (entry_id f) = Inr store'
    \<and> delete_remotes e rest
         (w\<lparr>drive := store',
            logs := logs w @ [(INFO, RemovedDrive (entry_name f) (createdTime f))]\<rparr>) = (Inr (), w2)"
  using assms by (auto simp: io_defs split: option.splits sum.splits)

lemma files_delete_ids:
  "files_delete store i = Inr store' \<Longrightarrow>
   i \<notin> file_id ` set store' \<and> file_id ` set store' \<subseteq> file_id ` set store"
  by (auto simp: files_delete_def split: if_splits)

lemma delete_remotes_ids:
  "delete_remotes e es w = (Inr (), w2) \<Longrightarrow> file_id ` set (drive w2) \<subseteq> file_id ` set (drive w)"
proof (induction es arbitrary: w)
  case Nil
  then show ?case by (simp add: io_return_def)
next
  case (Cons f es)
  from delete_remotes_Cons_ok [OF Cons.prems] obtain store' where
    del: "files_delete (drive w) (entry_id f) = Inr store'"
    and rest: "delete_remotes e es
         (w\<lparr>drive := store',
            logs := logs w @ [(INFO, RemovedDrive (entry_name f) (createdTime f))]\<rparr>) = (Inr (), w2)"
    by blast
  from Cons.IH [OF rest] files_delete_ids [OF del] show ?case by fastforce
qed

lemma delete_remotes_gone:
  "delete_remotes e es w = (Inr (), w2) \<Longrightarrow> g \<in> set es \<Longrightarrow>
   entry_id g \<notin> file_id ` set (drive w2)"
proof (induction es arbitrary: w)
  case Nil
  then show ?case by simp
next
  case (Cons f es)
  from delete_remotes_Cons_ok [OF Cons.prems(1)] obtain store' where
    del: "files_delete (drive w) (entry_id f) = Inr store'"
    and rest: "delete_remotes e es
         (w\<lparr>drive := store',
            logs := logs w @ [(INFO, RemovedDrive (entry_name f) (createdTime f))]\<rparr>) = (Inr (), w2)"
    by blast
  show ?case
  proof (cases "g \<in> set es")
    case True
    from Cons.IH [OF rest this] show ?thesis .
  next
    case False
    with Cons.prems(2) have "g = f" by simp
    with files_delete_ids [OF del] delete_remotes_ids [OF rest] show ?thesis by auto
  qed
qed

lemma delete_remotes_logs:
  "delete_remotes e es w = (Inr (), w2) \<Longrightarrow>
   logs w2 = logs w @ map (\<lambda>g. (INFO, RemovedDrive (entry_name g) (createdTime g))) es"
proof (induction es arbitrary: w)
  case Nil
  then show ?case by (simp add: io_return_def)
next
  case (Cons f es)
  from delete_remotes_Cons_ok [OF Cons.prems] obtain store' where
    rest: "delete_remotes e es
         (w\<lparr>drive := store',
            logs := logs w @ [(INFO, RemovedDrive (entry_name f) (createdTime f))]\<rparr>) = (Inr (), w2)"
    by blast
  from Cons.IH [OF rest] show ?case by simp
qed

lemma pruning_and_summary_local_fails:
  "clean_local_backups self e w = (Inl ex, w') \<Longrightarrow>
   pruning_and_summary self e zip_path w = (Inl ex, w')"
  by (simp add: pruning_and_summary_def io_then_Inl)

lemma pruning_and_summary_remote_fails:
  "clean_local_backups self e w = (Inr (), w') \<Longrightarrow>
   delete_old_backups_by_count self e w' = (Inl ex, w'') \<Longrightarrow>
   pruning_and_summary self e zip_path w = (Inl ex, w'')"
  by (simp add: pruning_and_summary_def io_then_Inl io_then_Inr)

lemma do_backup_pruning_fails:
  assumes "os_makedirs (fs w) (clock e) (cycle_folder self e) = Inr t"
    and "before_pruning self e (cycle_zip self e)
           (w\<lparr>fs := t, logs := logs w @ [(INFO, CycleStart)]\<rparr>) = (Inr (), wb)"
    and "pruning_and_summary self e (cycle_zip self e) wb = (Inl ex, wc)"
  shows "do_backup self e w =
     (Inr (), wc\<lparr>logs := logs wc @
        [(ERROR, BackupError ex), (DEBUG, Traceback), (INFO, CycleEnd)]\<rparr>)"
proof -
  have "backup_steps self e (cycle_zip self e)
      (w\<lparr>fs := t, logs := logs w @ [(INFO, CycleStart)]\<rparr>) = (Inl ex, wc)"
    using assms(2,3) by (simp add: backup_steps_def io_then_Inr)
  then have "guarded (backup_steps self e (cycle_zip self e))
      (w\<lparr>fs := t, logs := logs w @ [(INFO, CycleStart)]\<rparr>) =
      (Inr (), wc\<lparr>logs := logs wc @
        [(ERROR, BackupError ex), (DEBUG, Traceback), (INFO, CycleEnd)]\<rparr>)"
    by (rule guarded_Inl [where m = "backup_steps self e (cycle_zip self e)"])
  then show ?thesis
    using do_backup_started [OF assms(1)] by simp
qed

section \<open>The sample cycle with a deletion that fails\<close>

lemma fs1_tree: "fs1 = tree_with (olds @ [Dir ''mardi-03-novembre-2026-14h05'' 10 []])"
  by (simp add: fs1_def tree_with_def olds_def)

lemma write_zip_open:
  "write_file fs1 (cycle_zip bot0 env0) (Archive []) =
     Inr (tree_with (olds @ [Dir ''mardi-03-novembre-2026-14h05'' 10
       [File ''backup-bot_20261103_130509.zip'' (Archive [])]]))"
  by (simp add: cycle_zip_env0 write_file_def fs1_tree tree_with_def olds_def os_path_isdir_def
      put_entry_def)

lemma custom_zip_folder_fresh_eq:
  assumes "\<not> os_path_exists (fs w) zip_path" and "os_path_isdir (fs w) source_folder"
    and "write_file (fs w) zip_path (Archive []) = Inr t1"
    and "write_file t1 zip_path (Archive (written (walk_source self source_folder t1))) = Inr t2"
  shows "custom_zip_folder self source_folder zip_path w =
     (Inr (), w\<lparr>fs := t2,
        logs := logs w @ [(INFO, Zipping source_folder zip_path)]
          @ map (Pair DEBUG) (map Excluded (skipped (walk_source self source_folder t1)))
          @ [(INFO, ZipCreated (length (written (walk_source self source_folder t1))))]\<rparr>)"
proof -
  let ?wa = "w\<lparr>logs := logs w @ [(INFO, Zipping source_folder zip_path)]\<rparr>"
  have src: "os_path_isdir (fs ?wa) source_folder"
    using assms(2) by simp
  have t1: "write_file (fs ?wa) zip_path (Archive []) = Inr t1"
    using assms(3) by simp
  from write_zip_ok [OF src t1, of self] assms(4)
  have wz: "write_zip self source_folder zip_path ?wa =
        (Inr (), ?wa\<lparr>fs := t2,
           logs := logs ?wa @ map (Pair DEBUG) (map Excluded (skipped (walk_source self source_folder t1)))
             @ [(INFO, ZipCreated (length (written (walk_source self source_folder t1))))]\<rparr>)"
    by auto
  have rm: "remove_old_zip zip_path ?wa = (Inr (), ?wa)"
    using assms(1) by (simp add: remove_old_zip_absent)
  have "custom_zip_folder self source_folder zip_path w = write_zip self source_folder zip_path ?wa"
    using rm by (simp add: custom_zip_folder_def io_defs)
  with wz show ?thesis
    by simp
qed

lemma before_pruning_ok:
  assumes "custom_zip_folder self (folder_to_zip self) zip_path w = (Inr (), w')"
    and "lookup (fs w') zip_path = Some (File f d)"
    and "credentials_fault e = None" and "build_fault e = None" and "create_fault e = None"
    and "upload_fault e = None"
  shows "before_pruning self e zip_path w =
     (Inr (), w'\<lparr>drive := drive w' @
          [\<lparr>file_id = new_folder_id e, file_name = drive_folder_name (bot_name self) (now e),
             mimeType = folder_mime, parents = [parent_folder_id self], trashed = False,
             file_created = new_folder_created e\<rparr>,
           \<lparr>file_id = new_file_id e, file_name = last zip_path,
             mimeType = guess_mime (last zip_path), parents = [new_folder_id e], trashed = False,
             file_created = new_file_created e\<rparr>],
        logs := logs w' @
          [(DEBUG, Authenticating), (DEBUG, Authenticated),
           (INFO, CreatingDriveFolder (drive_folder_name (bot_name self) (now e))),
           (INFO, DriveFolderCreated (new_folder_id e)),
           (INFO, Uploading zip_path (new_folder_id e)),
           (INFO, UploadDone (new_file_id e))]\<rparr>)"
  using assms
  by (simp add: before_pruning_def authenticate_def create_drive_folder_def
      upload_file_to_folder_def open_media_def io_defs)

lemma walk_source_open:
  "walk_source bot1 [''srv'', ''bot'']
     (tree_with (olds @ [Dir ''mardi-03-novembre-2026-14h05'' 10
       [File ''backup-bot_20261103_130509.zip'' (Archive [])]])) =
     [Written [''main.py''] (Bytes ''m''), Skipped [''srv'', ''bot'', ''debug.log''],
      Written [''src'', ''a.py''] (Bytes ''a''), Skipped [''srv'', ''bot'', ''src'', ''a.pyc''],
      Written [''src'', ''deep'', ''d.txt''] (Bytes ''d'')]"
proof -
  have "lookup (tree_with (olds @ [Dir ''mardi-03-novembre-2026-14h05'' 10
       [File ''backup-bot_20261103_130509.zip'' (Archive [])]])) [''srv'', ''bot''] = Some src0"
    by (simp add: tree_with_def src0_def)
  moreover have "excluded_folders bot1 = excluded_folders bot0"
    "excluded_extensions bot1 = excluded_extensions bot0"
    by (simp_all add: bot1_def)
  ultimately show ?thesis
    by (simp add: walk_source_def zip_walk_src0)
qed

lemma write_zip_close:
  "write_file (tree_with (olds @ [Dir ''mardi-03-novembre-2026-14h05'' 10
       [File ''backup-bot_20261103_130509.zip'' (Archive [])]])) (cycle_zip bot0 env0)
     (Archive [([''main.py''], Bytes ''m''), ([''src'', ''a.py''], Bytes ''a''),
               ([''src'', ''deep'', ''d.txt''], Bytes ''d'')]) = Inr fs2"
  by (simp add: cycle_zip_env0 write_file_def fs2_def zip4_def tree_with_def olds_def
      os_path_isdir_def put_entry_def)

lemma drive_folder_name_env0:
  "drive_folder_name ''Bot'' (now env0) = ''Bot 3 novembre 2026 14h05''"
  by (simp add: drive_folder_name_def env0_def mois_def fmt_eval)

lemma sample_names:
  "cycle_folder bot1 (env0\<lparr>delete_fault := df, rmtree_fault := rf\<rparr>) = cycle_folder bot0 env0"
  "cycle_zip bot1 (env0\<lparr>delete_fault := df, rmtree_fault := rf\<rparr>) = cycle_zip bot0 env0"
  by (simp_all add: cycle_zip_def cycle_folder_def bot1_def)

lemma sample_envs:
  "env_rmtree_fails = env0\<lparr>delete_fault := \<lambda>i. None,
     rmtree_fault := \<lambda>p. if p = [''backup'', ''Bot'', ''old2''] then Some PermissionError else None\<rparr>"
  "env_delete_404 = env0\<lparr>delete_fault := \<lambda>i. if i = ''f2'' then Some (HttpError 404) else None,
     rmtree_fault := \<lambda>p. None\<rparr>"
  by (simp_all add: env_rmtree_fails_def env_delete_404_def env0_def)

lemma before_pruning_sample:
  "before_pruning bot1 (env0\<lparr>delete_fault := df, rmtree_fault := rf\<rparr>)
     (cycle_zip bot1 (env0\<lparr>delete_fault := df, rmtree_fault := rf\<rparr>))
     (w0\<lparr>fs := fs1, logs := logs w0 @ [(INFO, CycleStart)]\<rparr>) = (Inr (), w_uploaded)"
proof -
  let ?e = "env0\<lparr>delete_fault := df, rmtree_fault := rf\<rparr>"
  let ?w1 = "w0\<lparr>fs := fs1, logs := logs w0 @ [(INFO, CycleStart)]\<rparr>"
  let ?zp = "cycle_zip bot0 env0"
  have a: "\<not> os_path_exists (fs ?w1) ?zp"
    by (simp add: cycle_zip_env0 os_path_exists_def fs1_def)
  have b: "os_path_isdir (fs ?w1) [''srv'', ''bot'']"
    by (simp add: os_path_isdir_def fs1_def src0_def)
  have c: "write_file (fs ?w1) ?zp (Archive []) =
     Inr (tree_with (olds @ [Dir ''mardi-03-novembre-2026-14h05'' 10
       [File ''backup-bot_20261103_130509.zip'' (Archive [])]]))"
    using write_zip_open by simp
  have d: "write_file (tree_with (olds @ [Dir ''mardi-03-novembre-2026-14h05'' 10
       [File ''backup-bot_20261103_130509.zip'' (Archive [])]])) ?zp
     (Archive (written (walk_source bot1 [''srv'', ''bot'']
        (tree_with (olds @ [Dir ''mardi-03-novembre-2026-14h05'' 10
          [File ''backup-bot_20261103_130509.zip'' (Archive [])]]))))) = Inr fs2"
    unfolding walk_source_open using write_zip_close by simp
  let ?w2 = "?w1\<lparr>fs := fs2,
        logs := logs ?w1 @ [(INFO, Zipping [''srv'', ''bot''] ?zp),
          (DEBUG, Excluded [''srv'', ''bot'', ''debug.log'']),
          (DEBUG, Excluded [''srv'', ''bot'', ''src'', ''a.pyc'']), (INFO, ZipCreated 3)]\<rparr>"
  have z: "custom_zip_folder bot1 (folder_to_zip bot1) ?zp ?w1 = (Inr (), ?w2)"
  proof -
    have f: "folder_to_zip bot1 = [''srv'', ''bot'']"
      by (simp add: bot1_def bot0_def)
    show ?thesis
      using custom_zip_folder_fresh_eq [OF a b c d] unfolding walk_source_open f
      by simp
  qed
  have l: "lookup (fs ?w2) ?zp = Some zip4"
    by (simp add: cycle_zip_env0 fs2_def tree_with_def olds_def zip4_def)
  have e: "credentials_fault ?e = None" "build_fault ?e = None"
    "create_fault ?e = None" "upload_fault ?e = None"
    "new_folder_id ?e = ''f4''" "new_file_id ?e = ''z4''"
    "new_folder_created ?e = ''2026-11-03''"
    "new_file_created ?e = ''2026-11-03''"
    "now ?e = now env0"
    by (simp_all add: env0_def)
  have s: "bot_name bot1 = ''Bot''" "parent_folder_id bot1 = ''P''"
    by (simp_all add: bot1_def bot0_def)
  have g: "guess_mime ''backup-bot_20261103_130509.zip'' = ''application/zip''"
    by (simp add: guess_mime_def suffix_to_prefix)
  have "before_pruning bot1 ?e ?zp ?w1 = (Inr (), w_uploaded)"
    unfolding before_pruning_ok [OF z l [unfolded zip4_def] e(1-4)]
    unfolding e s drive_folder_name_env0
    by (simp add: cycle_zip_env0 g w_uploaded_def w0_def)
  then show ?thesis
    by (simp only: sample_names)
qed

lemma makedirs_sample:
  "os_makedirs (fs w0) (clock (env0\<lparr>delete_fault := df, rmtree_fault := rf\<rparr>))
     (cycle_folder bot1 (env0\<lparr>delete_fault := df, rmtree_fault := rf\<rparr>)) = Inr fs1"
  using makedirs_fs0 by (simp add: sample_names)

lemma rmtree_fs2_old3:
  "shutil_rmtree (rmtree_fault env_rmtree_fails) fs2 [''backup'', ''Bot'', ''old3''] = (None, fs2_a)"
  by (simp add: shutil_rmtree_def fs2_def fs2_a_def tree_with_def olds_def env_rmtree_fails_def
      env0_def remove_entry_def)

lemma rmtree_fs2_old2:
  "shutil_rmtree (rmtree_fault env_rmtree_fails) fs2_a [''backup'', ''Bot'', ''old2''] =
     (Some PermissionError, fs3)"
  by (simp add: shutil_rmtree_def fs2_a_def fs3_def tree_with_def env_rmtree_fails_def
      env0_def replace_entry_def)

lemma listdir_uploaded:
  "os_listdir (fs w_uploaded) [''backup'', ''Bot''] =
     Inr [''backup.log'', ''old1'', ''old2'', ''old3'', ''mardi-03-novembre-2026-14h05'']"
  by (simp add: os_listdir_def w_uploaded_def fs2_def tree_with_def olds_def)

lemma selected_local_uploaded:
  "select_local (os_path_getctime (fs w_uploaded))
     (local_subs (fs w_uploaded) [''backup'', ''Bot'']
        [''backup.log'', ''old1'', ''old2'', ''old3'', ''mardi-03-novembre-2026-14h05'']) 1 =
     [[''backup'', ''Bot'', ''old3''], [''backup'', ''Bot'', ''old2''],
      [''backup'', ''Bot'', ''old1'']]"
  by (simp add: select_local_def local_subs_def py_sort_reverse_def py_slice_from_def
      py_bound_def os_path_getctime_def os_path_isdir_def w_uploaded_def fs2_def tree_with_def
      olds_def)

lemma remove_locals_uploaded_old3:
  "remove_locals env_rmtree_fails [[''backup'', ''Bot'', ''old3'']] w_uploaded =
     (Inr (), w_uploaded\<lparr>fs := fs2_a,
        logs := logs w_uploaded @ [(INFO, RemovedLocal [''backup'', ''Bot'', ''old3''])]\<rparr>)"
proof -
  have "shutil_rmtree (rmtree_fault env_rmtree_fails) (fs w_uploaded)
      [''backup'', ''Bot'', ''old3''] = (None, fs2_a)"
    using rmtree_fs2_old3 by (simp add: w_uploaded_def)
  from remove_locals_ok_step [OF this, of "[]"] show ?thesis
    by (simp add: io_return_def)
qed

lemma clean_local_backups_uploaded:
  "clean_local_backups bot1 env_rmtree_fails w_uploaded =
     remove_locals env_rmtree_fails
       [[''backup'', ''Bot'', ''old3''], [''backup'', ''Bot'', ''old2''],
        [''backup'', ''Bot'', ''old1'']] w_uploaded"
proof -
  have "local_backup_root bot1 = [''backup'', ''Bot'']" "local_keep bot1 = 1"
    by (simp_all add: bot1_def bot0_def)
  then show ?thesis
    by (simp add: clean_local_backups_eq listdir_uploaded selected_local_uploaded
        del: remove_locals.simps)
qed

lemma rmtree_all:
  "shutil_rmtree (\<lambda>p. None) fs2 [''backup'', ''Bot'', ''old3''] = (None, fs2_a)"
  "shutil_rmtree (\<lambda>p. None) fs2_a [''backup'', ''Bot'', ''old2''] =
     (None, tree_with [File ''backup.log'' (Bytes []), Dir ''old1'' 1 [File ''z1.zip'' (Archive [])],
        Dir ''mardi-03-novembre-2026-14h05'' 10 [zip4]])"
  "shutil_rmtree (\<lambda>p. None)
     (tree_with [File ''backup.log'' (Bytes []), Dir ''old1'' 1 [File ''z1.zip'' (Archive [])],
        Dir ''mardi-03-novembre-2026-14h05'' 10 [zip4]]) [''backup'', ''Bot'', ''old1''] =
     (None, fs4)"
  by (simp_all add: shutil_rmtree_def fs2_def fs2_a_def fs4_def tree_with_def olds_def
      remove_entry_def)

lemma clean_local_backups_pruned:
  "clean_local_backups bot1 env_delete_404 w_uploaded = (Inr (), w_pruned)"
proof -
  have b: "local_backup_root bot1 = [''backup'', ''Bot'']" "local_keep bot1 = 1"
    by (simp_all add: bot1_def bot0_def)
  have r: "rmtree_fault env_delete_404 = (\<lambda>p. None)"
    by (simp add: env_delete_404_def env0_def)
  have "clean_local_backups bot1 env_delete_404 w_uploaded =
     remove_locals env_delete_404
       [[''backup'', ''Bot'', ''old3''], [''backup'', ''Bot'', ''old2''],
        [''backup'', ''Bot'', ''old1'']] w_uploaded"
    using b
    by (simp add: clean_local_backups_eq listdir_uploaded selected_local_uploaded
        del: remove_locals.simps)
  also have "\<dots> = (Inr (), w_pruned)"
    by (simp add: remove_locals_ok_step r rmtree_all w_uploaded_def w_pruned_def io_return_def
        del: remove_locals.simps(2))
  finally show ?thesis .
qed

lemma selected_remote_pruned:
  "select_remote (files_list (drive w_pruned) ''P'' 1000) 1 =
     [to_entry (folder0 ''f1'' ''2024-01-01''), to_entry (folder0 ''f2'' ''2024-01-02''),
      to_entry (folder0 ''f3'' ''2024-01-03'')]"
  by (simp add: w_pruned_def w_uploaded_def w0_def files_list_def first_page_def
      matches_query_def folder0_def select_remote_def py_sort_def py_slice_to_def py_bound_def
      to_entry_def)

lemma delete_remotes_f1:
  "delete_remotes env_delete_404 [to_entry (folder0 ''f1'' ''2024-01-01'')]
     (w_pruned\<lparr>logs := logs w_pruned @ [(DEBUG, ListingDriveFolders)]\<rparr>) = (Inr (), w_deleted)"
  by (simp add: io_defs env_delete_404_def env0_def to_entry_def folder0_def files_delete_def
      w_deleted_def w_pruned_def w_uploaded_def w0_def)

lemma rmtree_stopped:
  "shutil_rmtree (rmtree_fault env_rmtree_fails)
     (fs (w_uploaded\<lparr>fs := fs2_a,
        logs := logs w_uploaded @ [(INFO, RemovedLocal [''backup'', ''Bot'', ''old3''])]\<rparr>))
     [''backup'', ''Bot'', ''old2''] = (Some PermissionError, fs3)"
  using rmtree_fs2_old2 by simp

lemma clean_local_backups_stopped:
  "clean_local_backups bot1 env_rmtree_fails w_uploaded = (Inl PermissionError, w_stopped)"
proof -
  have "shutil_rmtree (rmtree_fault env_rmtree_fails) (fs w_uploaded)
      [''backup'', ''Bot'', ''old3''] = (None, fs2_a)"
    using rmtree_fs2_old3 by (simp add: w_uploaded_def)
  from remove_locals_ok_step [OF this]
  have "remove_locals env_rmtree_fails
       [[''backup'', ''Bot'', ''old3''], [''backup'', ''Bot'', ''old2''],
        [''backup'', ''Bot'', ''old1'']] w_uploaded =
     remove_locals env_rmtree_fails [[''backup'', ''Bot'', ''old2''], [''backup'', ''Bot'', ''old1'']]
       (w_uploaded\<lparr>fs := fs2_a,
          logs := logs w_uploaded @ [(INFO, RemovedLocal [''backup'', ''Bot'', ''old3''])]\<rparr>)" .
  also from remove_locals_fails_step [OF rmtree_stopped]
  have "\<dots> = (Inl PermissionError, w_stopped)"
    by (simp add: w_stopped_def del: remove_locals.simps)
  finally show ?thesis
    unfolding clean_local_backups_uploaded .
qed

lemma delete_f2_fails:
  "delete_fault env_delete_404 (entry_id (to_entry (folder0 ''f2'' ''2024-01-02''))) =
     Some (HttpError 404)"
  by (simp add: env_delete_404_def to_entry_def folder0_def)

lemma delete_old_backups_pruned:
  "delete_old_backups_by_count bot1 env_delete_404 w_pruned = (Inl (HttpError 404), w_deleted)"
proof -
  have b: "parent_folder_id bot1 = ''P''" "drive_keep bot1 = 1"
    by (simp_all add: bot1_def bot0_def)
  have l: "list_fault env_delete_404 = None"
    by (simp add: env_delete_404_def env0_def)
  have "delete_remotes env_delete_404
      ([to_entry (folder0 ''f1'' ''2024-01-01'')] @
       to_entry (folder0 ''f2'' ''2024-01-02'') # [to_entry (folder0 ''f3'' ''2024-01-03'')])
      (w_pruned\<lparr>logs := logs w_pruned @ [(DEBUG, ListingDriveFolders)]\<rparr>) =
      (Inl (HttpError 404), w_deleted)"
    unfolding delete_remotes_append
    using delete_remotes_f1 delete_remotes_fails_step [OF disjI1, OF delete_f2_fails]
    by (simp add: io_then_Inr del: delete_remotes.simps)
  then show ?thesis
    by (simp add: delete_old_backups_by_count_eq l b selected_remote_pruned
        del: delete_remotes.simps)
qed

section \<open>Pruning stops at the first deletion that raises\<close>

text \<open>
  Claim C4, as the code has it.  Neither loop catches anything, so the deletions stop at
  the first one that raises.

  Local loop: when the entries \<open>pre\<close> have been removed (they are gone from the tree, and
  each removal is logged) and \<^verbatim>\<open>shutil.rmtree\<close> raises \<open>ex\<close> on the next selected entry
  \<open>old\<close>, leaving the tree \<open>t'\<close>, the loop ends with \<open>ex\<close> in that tree: every path that
  is neither inside \<open>old\<close> nor above it is as before, so the entries selected after \<open>old\<close>
  are untouched, while \<open>old\<close> itself may have lost part of its content.

  Remote loop: when the folders \<open>dpre\<close> have been deleted (their ids are gone from the
  Drive, and each deletion is logged) and the delete request of the next selected folder
  raises \<open>ex'\<close>, the loop ends with \<open>ex'\<close> on that Drive; a folder that is not there any
  more raises \<open>HttpError 404\<close> like any other failure.

  The two routines are these loops on their selections, and an exception that leaves
  either routine reaches the handler of \<^verbatim>\<open>do_backup\<close>, which logs it as the error of the
  cycle.
\<close>

theorem pruning_stops_at_first_failure:
  "(remove_locals e pre w = (Inr (), w1) \<longrightarrow>
      (\<forall>p \<in> set pre. \<not> os_path_exists (fs w1) p)
      \<and> logs w1 = logs w @ map (\<lambda>p. (INFO, RemovedLocal p)) pre
      \<and> (shutil_rmtree (rmtree_fault e) (fs w1) old = (Some ex, t') \<longrightarrow>
           remove_locals e (pre @ old # rest) w = (Inl ex, w1\<lparr>fs := t'\<rparr>)
           \<and> (\<forall>q. \<not> prefix old q \<longrightarrow> \<not> prefix q old \<longrightarrow> lookup t' q = lookup (fs w1) q)))
   \<and> (delete_remotes e dpre w = (Inr (), w2) \<longrightarrow>
      (\<forall>g \<in> set dpre. entry_id g \<notin> file_id ` set (drive w2))
      \<and> logs w2 = logs w @ map (\<lambda>g. (INFO, RemovedDrive (entry_name g) (createdTime g))) dpre
      \<and> (delete_fault e (entry_id f) = Some ex'
            \<or> (delete_fault e (entry_id f) = None
                \<and> files_delete (drive w2) (entry_id f) = Inl ex') \<longrightarrow>
           delete_remotes e (dpre @ f # drest) w = (Inl ex', w2))
      \<and> (delete_fault e (entry_id f) = None \<longrightarrow> entry_id f \<notin> file_id ` set (drive w2) \<longrightarrow>
           delete_remotes e (dpre @ f # drest) w = (Inl (HttpError 404), w2)))
   \<and> (os_listdir (fs wa) (local_backup_root self) = Inr names \<longrightarrow>
        clean_local_backups self e wa =
          remove_locals e
            (select_local (os_path_getctime (fs wa))
               (local_subs (fs wa) (local_backup_root self) names) (local_keep self)) wa)
   \<and> (list_fault e = None \<longrightarrow>
        delete_old_backups_by_count self e wa =
          delete_remotes e
            (select_remote (files_list (drive wa) (parent_folder_id self) 1000) (drive_keep self))
            (wa\<lparr>logs := logs wa @ [(DEBUG, ListingDriveFolders)]\<rparr>))
   \<and> (os_makedirs (fs ws) (clock e) (cycle_folder self e) = Inr t \<longrightarrow>
      before_pruning self e (cycle_zip self e)
        (ws\<lparr>fs := t, logs := logs ws @ [(INFO, CycleStart)]\<rparr>) = (Inr (), wb) \<longrightarrow>
        (clean_local_backups self e wb = (Inl exl, wc) \<longrightarrow>
           do_backup self e ws =
             (Inr (), wc\<lparr>logs := logs wc @
                [(ERROR, BackupError exl), (DEBUG, Traceback), (INFO, CycleEnd)]\<rparr>))
        \<and> (clean_local_backups self e wb = (Inr (), wc) \<longrightarrow>
           delete_old_backups_by_count self e wc = (Inl exr, wd) \<longrightarrow>
           do_backup self e ws =
             (Inr (), wd\<lparr>logs := logs wd @
                [(ERROR, BackupError exr), (DEBUG, Traceback), (INFO, CycleEnd)]\<rparr>)))"
proof (intro conjI impI ballI allI)
  fix p
  assume "remove_locals e pre w = (Inr (), w1)" and "p \<in> set pre"
  then show "\<not> os_path_exists (fs w1) p"
    by (rule remove_locals_gone)
next
  assume "remove_locals e pre w = (Inr (), w1)"
  then show "logs w1 = logs w @ map (\<lambda>p. (INFO, RemovedLocal p)) pre"
    by (rule remove_locals_logs)
next
  assume "remove_locals e pre w = (Inr (), w1)"
    and "shutil_rmtree (rmtree_fault e) (fs w1) old = (Some ex, t')"
  then show "remove_locals e (pre @ old # rest) w = (Inl ex, w1\<lparr>fs := t'\<rparr>)"
    unfolding remove_locals_append
    by (simp add: io_then_Inr remove_locals_fails_step del: remove_locals.simps)
next
  fix q
  assume "shutil_rmtree (rmtree_fault e) (fs w1) old = (Some ex, t')"
    and "\<not> prefix old q" and "\<not> prefix q old"
  then show "lookup t' q = lookup (fs w1) q"
    by (rule shutil_rmtree_apart)
next
  fix g
  assume "delete_remotes e dpre w = (Inr (), w2)" and "g \<in> set dpre"
  then show "entry_id g \<notin> file_id ` set (drive w2)"
    by (rule delete_remotes_gone)
next
  assume "delete_remotes e dpre w = (Inr (), w2)"
  then show "logs w2 = logs w @ map (\<lambda>g. (INFO, RemovedDrive (entry_name g) (createdTime g))) dpre"
    by (rule delete_remotes_logs)
next
  assume "delete_remotes e dpre w = (Inr (), w2)"
    and "delete_fault e (entry_id f) = Some ex'
      \<or> (delete_fault e (entry_id f) = None \<and> files_delete (drive w2) (entry_id f) = Inl ex')"
  then show "delete_remotes e (dpre @ f # drest) w = (Inl ex', w2)"
    unfolding delete_remotes_append
    by (simp add: io_then_Inr delete_remotes_fails_step del: delete_remotes.simps)
next
  assume "delete_remotes e dpre w = (Inr (), w2)" and "delete_fault e (entry_id f) = None"
    and "entry_id f \<notin> file_id ` set (drive w2)"
  then show "delete_remotes e (dpre @ f # drest) w = (Inl (HttpError 404), w2)"
    unfolding delete_remotes_append
    by (simp add: io_then_Inr delete_remotes_fails_step files_delete_def
        del: delete_remotes.simps)
next
  assume "os_listdir (fs wa) (local_backup_root self) = Inr names"
  then show "clean_local_backups self e wa =
          remove_locals e
            (select_local (os_path_getctime (fs wa))
               (local_subs (fs wa) (local_backup_root self) names) (local_keep self)) wa"
    by (simp add: clean_local_backups_eq)
next
  assume "list_fault e = None"
  then show "delete_old_backups_by_count self e wa =
          delete_remotes e
            (select_remote (files_list (drive wa) (parent_folder_id self) 1000) (drive_keep self))
            (wa\<lparr>logs := logs wa @ [(DEBUG, ListingDriveFolders)]\<rparr>)"
    by (simp add: delete_old_backups_by_count_eq)
next
  assume "os_makedirs (fs ws) (clock e) (cycle_folder self e) = Inr t"
    and "before_pruning self e (cycle_zip self e)
        (ws\<lparr>fs := t, logs := logs ws @ [(INFO, CycleStart)]\<rparr>) = (Inr (), wb)"
    and "clean_local_backups self e wb = (Inl exl, wc)"
  then show "do_backup self e ws =
             (Inr (), wc\<lparr>logs := logs wc @
                [(ERROR, BackupError exl), (DEBUG, Traceback), (INFO, CycleEnd)]\<rparr>)"
    by (intro do_backup_pruning_fails pruning_and_summary_local_fails)
next
  assume "os_makedirs (fs ws) (clock e) (cycle_folder self e) = Inr t"
    and "before_pruning self e (cycle_zip self e)
        (ws\<lparr>fs := t, logs := logs ws @ [(INFO, CycleStart)]\<rparr>) = (Inr (), wb)"
    and "clean_local_backups self e wb = (Inr (), wc)"
    and "delete_old_backups_by_count self e wc = (Inl exr, wd)"
  then show "do_backup self e ws =
             (Inr (), wd\<lparr>logs := logs wd @
                [(ERROR, BackupError exr), (DEBUG, Traceback), (INFO, CycleEnd)]\<rparr>)"
    by (intro do_backup_pruning_fails pruning_and_summary_remote_fails)
qed

text \<open>
  Claim C4 on the sample cycle, with one folder kept on each side.  Locally the
  selection is \<open>old3\<close>, \<open>old2\<close>, \<open>old1\<close>: \<open>old3\<close> is removed and logged, the removal of
  \<open>old2\<close> empties it and then raises \<open>PermissionError\<close>, and \<open>old1\<close> is as it was.
  Remotely the selection is \<open>f1\<close>, \<open>f2\<close>, \<open>f3\<close>: \<open>f1\<close> is deleted and logged, and the
  request for \<open>f2\<close> raises \<open>HttpError 404\<close>, as does a second request for \<open>f1\<close>.  Either
  exception ends the cycle in the handler of \<^verbatim>\<open>do_backup\<close>.
\<close>

theorem pruning_stops_at_first_failure_witness:
  "remove_locals env_rmtree_fails [[''backup'', ''Bot'', ''old3'']] w_uploaded =
     (Inr (), w_uploaded\<lparr>fs := fs2_a,
        logs := logs w_uploaded @ [(INFO, RemovedLocal [''backup'', ''Bot'', ''old3''])]\<rparr>)
   \<and> \<not> os_path_exists fs2_a [''backup'', ''Bot'', ''old3'']
   \<and> shutil_rmtree (rmtree_fault env_rmtree_fails) fs2_a [''backup'', ''Bot'', ''old2''] =
       (Some PermissionError, fs3)
   \<and> remove_locals env_rmtree_fails
        ([[''backup'', ''Bot'', ''old3'']] @
         [''backup'', ''Bot'', ''old2''] # [[''backup'', ''Bot'', ''old1'']]) w_uploaded =
       (Inl PermissionError, w_stopped)
   \<and> lookup fs3 [''backup'', ''Bot'', ''old1'', ''z1.zip''] =
       lookup fs2_a [''backup'', ''Bot'', ''old1'', ''z1.zip'']
   \<and> delete_remotes env_delete_404 [to_entry (folder0 ''f1'' ''2024-01-01'')]
        (w_pruned\<lparr>logs := logs w_pruned @ [(DEBUG, ListingDriveFolders)]\<rparr>) = (Inr (), w_deleted)
   \<and> ''f1'' \<notin> file_id ` set (drive w_deleted)
   \<and> delete_fault env_delete_404 ''f2'' = Some (HttpError 404)
   \<and> delete_remotes env_delete_404
        ([to_entry (folder0 ''f1'' ''2024-01-01'')] @
         to_entry (folder0 ''f2'' ''2024-01-02'') # [to_entry (folder0 ''f3'' ''2024-01-03'')])
        (w_pruned\<lparr>logs := logs w_pruned @ [(DEBUG, ListingDriveFolders)]\<rparr>) =
       (Inl (HttpError 404), w_deleted)
   \<and> delete_fault env_delete_404 ''f1'' = None
   \<and> delete_remotes env_delete_404
        ([to_entry (folder0 ''f1'' ''2024-01-01'')] @
         to_entry (folder0 ''f1'' ''2024-01-01'') # [])
        (w_pruned\<lparr>logs := logs w_pruned @ [(DEBUG, ListingDriveFolders)]\<rparr>) =
       (Inl (HttpError 404), w_deleted)
   \<and> os_listdir (fs w_uploaded) (local_backup_root bot1) =
       Inr [''backup.log'', ''old1'', ''old2'', ''old3'', ''mardi-03-novembre-2026-14h05'']
   \<and> clean_local_backups bot1 env_rmtree_fails w_uploaded = (Inl PermissionError, w_stopped)
   \<and> list_fault env_delete_404 = None
   \<and> delete_old_backups_by_count bot1 env_delete_404 w_pruned = (Inl (HttpError 404), w_deleted)
   \<and> os_makedirs (fs w0) (clock env_rmtree_fails) (cycle_folder bot1 env_rmtree_fails) = Inr fs1
   \<and> before_pruning bot1 env_rmtree_fails (cycle_zip bot1 env_rmtree_fails)
        (w0\<lparr>fs := fs1, logs := logs w0 @ [(INFO, CycleStart)]\<rparr>) = (Inr (), w_uploaded)
   \<and> do_backup bot1 env_rmtree_fails w0 =
       (Inr (), w_stopped\<lparr>logs := logs w_stopped @
          [(ERROR, BackupError PermissionError), (DEBUG, Traceback), (INFO, CycleEnd)]\<rparr>)
   \<and> clean_local_backups bot1 env_delete_404 w_uploaded = (Inr (), w_pruned)
   \<and> do_backup bot1 env_delete_404 w0 =
       (Inr (), w_deleted\<lparr>logs := logs w_deleted @
          [(ERROR, BackupError (HttpError 404)), (DEBUG, Traceback), (INFO, CycleEnd)]\<rparr>)"
proof -
  let ?o1 = "[''backup'', ''Bot'', ''old1'']"
  let ?o2 = "[''backup'', ''Bot'', ''old2'']"
  let ?o3 = "[''backup'', ''Bot'', ''old3'']"
  let ?f1 = "to_entry (folder0 ''f1'' ''2024-01-01'')"
  let ?f2 = "to_entry (folder0 ''f2'' ''2024-01-02'')"
  let ?f3 = "to_entry (folder0 ''f3'' ''2024-01-03'')"
  let ?wl = "w_pruned\<lparr>logs := logs w_pruned @ [(DEBUG, ListingDriveFolders)]\<rparr>"
  note local_loop = pruning_stops_at_first_failure [THEN conjunct1, THEN mp,
      OF remove_locals_uploaded_old3]
  note remote_loop = pruning_stops_at_first_failure [THEN conjunct2, THEN conjunct1, THEN mp,
      OF delete_remotes_f1]
  note local_routine = pruning_stops_at_first_failure [THEN conjunct2, THEN conjunct2,
      THEN conjunct1, THEN mp]
  note remote_routine = pruning_stops_at_first_failure [THEN conjunct2, THEN conjunct2,
      THEN conjunct2, THEN conjunct1, THEN mp]
  note handler = pruning_stops_at_first_failure [THEN conjunct2, THEN conjunct2,
      THEN conjunct2, THEN conjunct2, THEN mp, THEN mp]
  have gone: "\<not> os_path_exists fs2_a ?o3"
    using local_loop [THEN conjunct1] by simp
  have stop: "remove_locals env_rmtree_fails ([?o3] @ ?o2 # [?o1]) w_uploaded =
      (Inl PermissionError, w_stopped)"
    using local_loop [THEN conjunct2, THEN conjunct2, THEN mp, OF rmtree_stopped,
        THEN conjunct1, of "[?o1]"]
    by (simp add: w_stopped_def)
  have apart: "lookup fs3 (?o1 @ [''z1.zip'']) = lookup fs2_a (?o1 @ [''z1.zip''])"
    using local_loop [THEN conjunct2, THEN conjunct2, THEN mp, OF rmtree_stopped,
        THEN conjunct2, THEN spec, of "?o1 @ [''z1.zip'']"]
    by simp
  have f1_gone: "''f1'' \<notin> file_id ` set (drive w_deleted)"
    using remote_loop [THEN conjunct1] by (simp add: to_entry_def folder0_def)
  have f2: "delete_fault env_delete_404 ''f2'' = Some (HttpError 404)"
    using delete_f2_fails by (simp add: to_entry_def folder0_def)
  have f1: "delete_fault env_delete_404 ''f1'' = None"
    by (simp add: env_delete_404_def)
  have rstop: "delete_remotes env_delete_404 ([?f1] @ ?f2 # [?f3]) ?wl =
      (Inl (HttpError 404), w_deleted)"
    by (rule remote_loop [THEN conjunct2, THEN conjunct2, THEN conjunct1, THEN mp,
          OF disjI1, OF delete_f2_fails])
  have rtwice: "delete_remotes env_delete_404 ([?f1] @ ?f1 # []) ?wl =
      (Inl (HttpError 404), w_deleted)"
    using remote_loop [THEN conjunct2, THEN conjunct2, THEN conjunct2, THEN mp, THEN mp,
        of ?f1 "[]"] f1 f1_gone
    by (simp add: to_entry_def folder0_def del: delete_remotes.simps)
  have b: "local_backup_root bot1 = [''backup'', ''Bot'']" "local_keep bot1 = 1"
    "parent_folder_id bot1 = ''P''" "drive_keep bot1 = 1"
    by (simp_all add: bot1_def bot0_def)
  have listing: "os_listdir (fs w_uploaded) (local_backup_root bot1) =
      Inr [''backup.log'', ''old1'', ''old2'', ''old3'', ''mardi-03-novembre-2026-14h05'']"
    using listdir_uploaded by (simp add: b)
  have clean: "clean_local_backups bot1 env_rmtree_fails w_uploaded =
      (Inl PermissionError, w_stopped)"
    using local_routine [OF listing, of env_rmtree_fails] stop
    by (simp add: b selected_local_uploaded del: remove_locals.simps)
  have lf: "list_fault env_delete_404 = None"
    by (simp add: env_delete_404_def env0_def)
  have remote: "delete_old_backups_by_count bot1 env_delete_404 w_pruned =
      (Inl (HttpError 404), w_deleted)"
    using remote_routine [OF lf, of bot1 w_pruned] rstop
    by (simp add: b selected_remote_pruned del: delete_remotes.simps)
  have mk: "os_makedirs (fs w0) (clock env_rmtree_fails) (cycle_folder bot1 env_rmtree_fails) =
      Inr fs1"
    unfolding sample_envs by (rule makedirs_sample)
  have bp: "before_pruning bot1 env_rmtree_fails (cycle_zip bot1 env_rmtree_fails)
      (w0\<lparr>fs := fs1, logs := logs w0 @ [(INFO, CycleStart)]\<rparr>) = (Inr (), w_uploaded)"
    unfolding sample_envs by (rule before_pruning_sample)
  have mk': "os_makedirs (fs w0) (clock env_delete_404) (cycle_folder bot1 env_delete_404) =
      Inr fs1"
    unfolding sample_envs by (rule makedirs_sample)
  have bp': "before_pruning bot1 env_delete_404 (cycle_zip bot1 env_delete_404)
      (w0\<lparr>fs := fs1, logs := logs w0 @ [(INFO, CycleStart)]\<rparr>) = (Inr (), w_uploaded)"
    unfolding sample_envs by (rule before_pruning_sample)
  have cycle: "do_backup bot1 env_rmtree_fails w0 =
      (Inr (), w_stopped\<lparr>logs := logs w_stopped @
         [(ERROR, BackupError PermissionError), (DEBUG, Traceback), (INFO, CycleEnd)]\<rparr>)"
    by (rule handler [OF mk bp, THEN conjunct1, THEN mp, OF clean])
  have cycle': "do_backup bot1 env_delete_404 w0 =
      (Inr (), w_deleted\<lparr>logs := logs w_deleted @
         [(ERROR, BackupError (HttpError 404)), (DEBUG, Traceback), (INFO, CycleEnd)]\<rparr>)"
    by (rule handler [OF mk' bp', THEN conjunct2, THEN mp, THEN mp,
          OF clean_local_backups_pruned remote])
  show ?thesis
    using remove_locals_uploaded_old3 gone rmtree_fs2_old2 stop apart delete_remotes_f1
      f1_gone f2 rstop f1 rtwice listing clean lf remote mk bp cycle
      clean_local_backups_pruned cycle'
    by (simp del: remove_locals.simps delete_remotes.simps)
qed

text \<open>
  Claim C4 as the specification has it does not hold.  In the sample cycle the removal
  of \<open>old2\<close> fails: \<^verbatim>\<open>clean_local_backups\<close> raises, and \<open>old1\<close>, selected after it and
  removable, is still there.  Remotely the request for \<open>f2\<close> answers 404: the routine
  raises it, nothing logs it as skipped, and \<open>f3\<close>, selected after it and deletable, is
  still on the Drive.
\<close>

theorem pruning_not_best_effort_counterexample:
  "clean_local_backups bot1 env_rmtree_fails w_uploaded = (Inl PermissionError, w_stopped)
   \<and> rmtree_fault env_rmtree_fails [''backup'', ''Bot'', ''old1''] = None
   \<and> os_path_isdir (fs w_stopped) [''backup'', ''Bot'', ''old1'']
   \<and> delete_old_backups_by_count bot1 env_delete_404 w_pruned = (Inl (HttpError 404), w_deleted)
   \<and> delete_fault env_delete_404 ''f3'' = None
   \<and> ''f3'' \<in> file_id ` set (drive w_deleted)
   \<and> logs w_deleted = logs w_pruned @
        [(DEBUG, ListingDriveFolders), (INFO, RemovedDrive ''Bot f1'' ''2024-01-01'')]"
  using clean_local_backups_stopped delete_old_backups_pruned
  by (simp add: env_rmtree_fails_def env_delete_404_def env0_def w_stopped_def fs3_def
      tree_with_def os_path_isdir_def w_deleted_def folder0_def)

section \<open>The page of the remote listing\<close>

lemma select_remote_subset: "set (select_remote files keep) \<subseteq> set files"
  using set_take_subset [of _ "py_sort createdTime files"]
  by (auto simp: select_remote_def py_slice_to_def py_sort_def)

lemma files_delete_keeps:
  assumes "files_delete store i = Inr store'" and "f \<in> set store" and "file_id f \<noteq> i"
    and "i \<notin> set (parents f)"
  shows "f \<in> set store'"
  using assms by (auto simp: files_delete_def split: if_splits)

lemma delete_remotes_keeps:
  assumes "delete_remotes e es w = (r, w')" and "f \<in> set (drive w)"
    and "file_id f \<notin> entry_id ` set es" and "set (parents f) \<inter> entry_id ` set es = {}"
  shows "f \<in> set (drive w')"
  using assms
proof (induction es arbitrary: w)
  case Nil
  then show ?case by (simp add: io_return_def)
next
  case (Cons x es)
  show ?case
  proof (cases "delete_fault e (entry_id x)")
    case (Some ex)
    with Cons.prems show ?thesis by (auto simp: io_defs)
  next
    case None
    show ?thesis
    proof (cases "files_delete (drive w) (entry_id x)")
      case (Inl ex)
      with None Cons.prems show ?thesis by (auto simp: io_defs)
    next
      case (Inr store')
      let ?w1 = "w\<lparr>drive := store', logs := logs w @ [(INFO, RemovedDrive (entry_name x) (createdTime x))]\<rparr>"
      from None Inr Cons.prems(1) have "delete_remotes e es ?w1 = (r, w')"
        by (simp add: io_defs)
      moreover have "f \<in> set (drive ?w1)"
        using files_delete_keeps [OF Inr Cons.prems(2)] Cons.prems(3,4) by auto
      ultimately show ?thesis
        using Cons.IH [of ?w1] Cons.prems(3,4) by auto
    qed
  qed
qed

text \<open>
  Claim C10.  The one \<^verbatim>\<open>files().list\<close> request of \<^verbatim>\<open>delete_old_backups_by_count\<close> returns the
  first page of the folders under the parent, 1000 of them at most.  What the routine
  selects for deletion is taken from that page; and whatever happens in the loop, a file
  of the Drive that is not on that page, and is no child of a folder on it, is still on
  the Drive when the routine ends.
\<close>

theorem remote_pruning_first_page_only:
  assumes "delete_old_backups_by_count self e w = (r, w')"
  shows "length (first_page (drive w) (parent_folder_id self) 1000) \<le> 1000
    \<and> set (select_remote (files_list (drive w) (parent_folder_id self) 1000) (drive_keep self))
        \<subseteq> to_entry ` set (first_page (drive w) (parent_folder_id self) 1000)
    \<and> (\<forall>f \<in> set (drive w).
          file_id f \<notin> file_id ` set (first_page (drive w) (parent_folder_id self) 1000) \<longrightarrow>
          set (parents f) \<inter> file_id ` set (first_page (drive w) (parent_folder_id self) 1000) = {} \<longrightarrow>
          f \<in> set (drive w'))"
proof (intro conjI ballI impI)
  show "length (first_page (drive w) (parent_folder_id self) 1000) \<le> 1000"
    by (simp add: first_page_def)
next
  show "set (select_remote (files_list (drive w) (parent_folder_id self) 1000) (drive_keep self))
        \<subseteq> to_entry ` set (first_page (drive w) (parent_folder_id self) 1000)"
    using select_remote_subset [of "files_list (drive w) (parent_folder_id self) 1000"]
    by (simp add: files_list_def)
next
  fix f
  let ?page = "first_page (drive w) (parent_folder_id self) 1000"
  let ?sel = "select_remote (files_list (drive w) (parent_folder_id self) 1000) (drive_keep self)"
  assume f: "f \<in> set (drive w)" and id: "file_id f \<notin> file_id ` set ?page"
    and par: "set (parents f) \<inter> file_id ` set ?page = {}"
  have sub: "entry_id ` set ?sel \<subseteq> file_id ` set ?page"
  proof
    fix i
    assume "i \<in> entry_id ` set ?sel"
    then obtain x where x: "x \<in> set ?sel" and i: "i = entry_id x" by blast
    from x select_remote_subset have "x \<in> set (files_list (drive w) (parent_folder_id self) 1000)"
      by blast
    then obtain g where "g \<in> set ?page" and "x = to_entry g"
      by (auto simp: files_list_def)
    with i show "i \<in> file_id ` set ?page"
      by (simp add: to_entry_def)
  qed
  show "f \<in> set (drive w')"
  proof (cases "list_fault e")
    case (Some ex)
    with assms f show ?thesis
      by (auto simp: delete_old_backups_by_count_eq)
  next
    case None
    with assms have "delete_remotes e ?sel (w\<lparr>logs := logs w @ [(DEBUG, ListingDriveFolders)]\<rparr>) = (r, w')"
      by (simp add: delete_old_backups_by_count_eq)
    moreover have "f \<in> set (drive (w\<lparr>logs := logs w @ [(DEBUG, ListingDriveFolders)]\<rparr>))"
      using f by simp
    moreover have "file_id f \<notin> entry_id ` set ?sel"
      using id sub by blast
    moreover have "set (parents f) \<inter> entry_id ` set ?sel = {}"
      using par sub by blast
    ultimately show ?thesis
      by (rule delete_remotes_keeps)
  qed
qed

lemma first_page_many:
  "first_page (many_folders 1001) ''P'' 1000 = many_folders 1000"
proof -
  have "filter (matches_query ''P'') (many_folders 1001) = many_folders 1001"
    by (rule filter_True) (auto simp: many_folders_def matches_query_def folder0_def)
  then show ?thesis
    by (simp add: first_page_def many_folders_def take_map)
qed

lemma file_id_many: "file_id ` set (many_folders n) = (\<lambda>i. replicate (Suc i) (CHR ''x'')) ` {..<n}"
  by (auto simp: many_folders_def folder0_def image_iff)

theorem remote_pruning_first_page_only_witness:
  "folder0 (replicate 1001 (CHR ''x'')) (replicate 1001 (CHR ''0'')) \<in> set (drive w_many)
   \<and> file_id (folder0 (replicate 1001 (CHR ''x'')) (replicate 1001 (CHR ''0'')))
        \<notin> file_id ` set (first_page (drive w_many) (parent_folder_id bot0) 1000)
   \<and> set (parents (folder0 (replicate 1001 (CHR ''x'')) (replicate 1001 (CHR ''0''))))
        \<inter> file_id ` set (first_page (drive w_many) (parent_folder_id bot0) 1000) = {}
   \<and> length (filter (matches_query (parent_folder_id bot0)) (drive w_many)) = 1001
   \<and> folder0 (replicate 1001 (CHR ''x'')) (replicate 1001 (CHR ''0''))
        \<in> set (drive (snd (delete_old_backups_by_count bot0 env0 w_many)))"
proof -
  let ?f = "folder0 (replicate 1001 (CHR ''x'')) (replicate 1001 (CHR ''0''))"
  have page: "first_page (drive w_many) (parent_folder_id bot0) 1000 = many_folders 1000"
    by (simp add: w_many_def bot0_def first_page_many)
  have "?f \<in> (\<lambda>i. folder0 (replicate (Suc i) (CHR ''x'')) (replicate (Suc i) (CHR ''0'')))
      ` set [0..<1001]"
    by (rule image_eqI [where x = 1000]) simp_all
  then have a: "?f \<in> set (drive w_many)"
    by (simp add: w_many_def many_folders_def)
  have b: "file_id ?f \<notin> file_id ` set (many_folders 1000)"
  proof
    assume "file_id ?f \<in> file_id ` set (many_folders 1000)"
    then obtain i where "i < 1000" "replicate 1001 (CHR ''x'') = replicate (Suc i) (CHR ''x'')"
      by (auto simp: file_id_many folder0_def)
    then have "length (replicate 1001 (CHR ''x'')) = length (replicate (Suc i) (CHR ''x''))"
      by simp
    with \<open>i < 1000\<close> show False by simp
  qed
  have c: "set (parents ?f) \<inter> file_id ` set (many_folders 1000) = {}"
    by (auto simp: file_id_many folder0_def)
  have d: "length (filter (matches_query (parent_folder_id bot0)) (drive w_many)) = 1001"
  proof -
    have "filter (matches_query ''P'') (many_folders 1001) = many_folders 1001"
      by (rule filter_True) (auto simp: many_folders_def matches_query_def folder0_def)
    then show ?thesis
      by (simp add: w_many_def bot0_def) (simp add: many_folders_def)
  qed
  from remote_pruning_first_page_only
    [of bot0 env0 w_many "fst (delete_old_backups_by_count bot0 env0 w_many)"
      "snd (delete_old_backups_by_count bot0 env0 w_many)"] a b c
  have "?f \<in> set (drive (snd (delete_old_backups_by_count bot0 env0 w_many)))"
    unfolding page by simp
  with a b c d show ?thesis
    unfolding page by simp
qed

section \<open>The loop of the scheduler\<close>



















section \<open>The archiver without a source\<close>





section \<open>The names of a cycle\<close>

lemma digit_char_code:
  assumes "d < 10"
  shows "(of_char (digit_char d) :: nat) = 48 + d"
proof -
  from assms have "d = 0 \<or> d = 1 \<or> d = 2 \<or> d = 3 \<or> d = 4 \<or> d = 5 \<or> d = 6 \<or> d = 7 \<or> d = 8 \<or> d = 9"
    by arith
  then show ?thesis
    by (auto simp: digit_char_def)
qed

lemma digit_char_digit:
  assumes "d < 10"
  shows "digit_char d \<in> set ''0123456789''"
  unfolding digit_char_def using assms by (intro nth_mem) simp

lemma digits_value_snoc:
  "digits_value (s @ [c]) = 10 * digits_value s + (of_char c - 48)"
  by (simp add: digits_value_def)

lemma digits_value_single: "digits_value [c] = of_char c - 48"
  by (simp add: digits_value_def)

lemma digits_value_str_nat: "digits_value (str_nat n) = n"
proof (induction n rule: str_nat.induct)
  case (1 n)
  show ?case
  proof (cases "n < 10")
    case True
    then show ?thesis
      by (subst str_nat.simps) (simp add: digits_value_single digit_char_code)
  next
    case False
    with 1 have "digits_value (str_nat (n div 10)) = n div 10"
      by simp
    with False show ?thesis
      by (subst str_nat.simps) (simp add: digits_value_snoc digit_char_code)
  qed
qed

lemma digits_value_zeros: "digits_value (replicate k (CHR ''0'') @ s) = digits_value s"
proof -
  have "foldl (\<lambda>a c. 10 * a + (of_char c - 48)) (0::nat) (replicate k (CHR ''0'')) = 0"
    by (induction k) simp_all
  then show ?thesis
    by (simp add: digits_value_def)
qed

lemma digits_value_fmt [simp]:
  "digits_value (fmt_02d n) = n" "digits_value (fmt_04d n) = n"
  by (simp_all add: fmt_02d_def fmt_04d_def zero_pad_def digits_value_zeros digits_value_str_nat)

lemma str_nat_digits: "set (str_nat n) \<subseteq> set ''0123456789''"
proof (induction n rule: str_nat.induct)
  case (1 n)
  show ?case
  proof (cases "n < 10")
    case True
    with digit_char_digit [of n] show ?thesis
      by (subst str_nat.simps) simp
  next
    case False
    with 1 have "set (str_nat (n div 10)) \<subseteq> set ''0123456789''"
      by simp
    moreover have "digit_char (n mod 10) \<in> set ''0123456789''"
      by (rule digit_char_digit) simp
    ultimately show ?thesis
      using False by (subst str_nat.simps) simp
  qed
qed

lemma str_nat_no_dash: "CHR ''-'' \<notin> set (str_nat n)"
  using str_nat_digits [of n] by auto

lemma fmt_02d_no_dash: "CHR ''-'' \<notin> set (fmt_02d n)"
  using str_nat_no_dash [of n] by (auto simp: fmt_02d_def zero_pad_def)

lemma str_nat_length:
  assumes "n < 10 ^ k" and "0 < k"
  shows "length (str_nat n) \<le> k"
  using assms
proof (induction k arbitrary: n)
  case 0
  then show ?case by simp
next
  case (Suc k)
  show ?case
  proof (cases "n < 10")
    case True
    then show ?thesis
      by (subst str_nat.simps) simp
  next
    case False
    with Suc.prems have k: "0 < k"
      by (cases k) auto
    from Suc.prems have "n div 10 < 10 ^ k"
      by (simp add: less_mult_imp_div_less mult.commute)
    from Suc.IH [OF this k] False show ?thesis
      by (subst str_nat.simps) simp
  qed
qed

lemma str_nat_nonempty: "str_nat n \<noteq> []"
  by (subst str_nat.simps) simp

lemma length_fmt_02d: "n < 100 \<Longrightarrow> length (fmt_02d n) = 2"
  using str_nat_length [of n 2] by (simp add: fmt_02d_def zero_pad_def)

lemma length_fmt_04d: "n < 10000 \<Longrightarrow> length (fmt_04d n) = 4"
  using str_nat_length [of n 4] by (simp add: fmt_04d_def zero_pad_def)

lemma split_at_separator:
  assumes "c \<notin> set a" and "c \<notin> set b" and "a @ c # r = b @ c # r'"
  shows "a = b \<and> r = r'"
  using assms
proof (induction a arbitrary: b)
  case Nil
  then show ?case by (cases b) auto
next
  case (Cons x a)
  then show ?case by (cases b) auto
qed

lemma jours_no_dash: "k < 7 \<Longrightarrow> CHR ''-'' \<notin> set (jours ! k)"
proof -
  assume "k < 7"
  then have "jours ! k \<in> set jours"
    by (intro nth_mem) (simp add: jours_def)
  then show ?thesis
    by (auto simp: jours_def)
qed

lemma mois_no_dash: "k < 12 \<Longrightarrow> CHR ''-'' \<notin> set (mois ! k)"
proof -
  assume "k < 12"
  then have "mois ! k \<in> set mois"
    by (intro nth_mem) (simp add: mois_def)
  then show ?thesis
    by (auto simp: mois_def)
qed

lemma mois_distinct: "distinct mois"
  by (simp add: mois_def)

lemma mois_inj:
  assumes "j < 12" and "k < 12" and "mois ! j = mois ! k"
  shows "j = k"
proof -
  have "length mois = 12"
    by (simp add: mois_def)
  with assms mois_distinct show ?thesis
    by (simp add: nth_eq_iff_index_eq)
qed

lemma days_in_month_le:
  assumes "1 \<le> m" and "m \<le> 12"
  shows "days_in_month y m \<le> 31"
proof -
  have "[31, 28, 31, 30, 31, 30, 31, 31, 30, 31, 30, 31] ! (m - 1)
      \<in> set [31, 28, 31, 30, 31, 30, 31, 31, 30, 31, 30, 31 :: nat]"
    using assms by (intro nth_mem) simp
  then have "[31, 28, 31, 30, 31, 30, 31, 31, 30, 31, 30, 31] ! (m - 1) \<le> (31 :: nat)"
    by auto
  then show ?thesis
    by (simp add: days_in_month_def)
qed

lemma valid_datetime_bounds:
  assumes "valid_datetime a"
  shows "year a < 10000" "1 \<le> month a" "month a < 100" "month a \<le> 12" "day a < 100"
    "hour a < 100" "minute a < 100" "second a < 100"
proof -
  from assms have m: "1 \<le> month a" "month a \<le> 12" and d: "day a \<le> days_in_month (year a) (month a)"
    by (simp_all add: valid_datetime_def)
  from days_in_month_le [OF m, of "year a"] d show "day a < 100"
    by simp
  from assms show "year a < 10000" "1 \<le> month a" "month a < 100" "month a \<le> 12"
    "hour a < 100" "minute a < 100" "second a < 100"
    by (simp_all add: valid_datetime_def)
qed

lemma local_name_parts:
  assumes "valid_datetime a" and "valid_datetime b" and "local_name a = local_name b"
  shows "day a = day b \<and> month a = month b \<and> year a = year b \<and> hour a = hour b
    \<and> minute a = minute b"
proof -
  have wa: "weekday a < 7" and wb: "weekday b < 7"
    by (simp_all add: weekday_def)
  have ma: "month a - 1 < 12" and mb: "month b - 1 < 12"
    using assms(1,2) by (auto simp: valid_datetime_def)
  let ?r3 = "\<lambda>x. fmt_02d (hour x) @ ''h'' @ fmt_02d (minute x)"
  let ?r2 = "\<lambda>x. str_nat (year x) @ CHR ''-'' # ?r3 x"
  let ?r1 = "\<lambda>x. mois ! (month x - 1) @ CHR ''-'' # ?r2 x"
  let ?r0 = "\<lambda>x. fmt_02d (day x) @ CHR ''-'' # ?r1 x"
  have "jours ! weekday a @ CHR ''-'' # ?r0 a = jours ! weekday b @ CHR ''-'' # ?r0 b"
    using assms(3) by (simp add: local_name_def)
  from split_at_separator [OF jours_no_dash [OF wa] jours_no_dash [OF wb] this]
  have "?r0 a = ?r0 b" by simp
  from split_at_separator [OF fmt_02d_no_dash fmt_02d_no_dash this]
  have d: "fmt_02d (day a) = fmt_02d (day b)" and "?r1 a = ?r1 b" by simp_all
  from split_at_separator [OF mois_no_dash [OF ma] mois_no_dash [OF mb] this(2)]
  have m: "mois ! (month a - 1) = mois ! (month b - 1)" and "?r2 a = ?r2 b" by simp_all
  from split_at_separator [OF str_nat_no_dash str_nat_no_dash this(2)]
  have y: "str_nat (year a) = str_nat (year b)" and r3: "?r3 a = ?r3 b" by simp_all
  have "length (fmt_02d (hour a)) = length (fmt_02d (hour b))"
    using valid_datetime_bounds [OF assms(1)] valid_datetime_bounds [OF assms(2)]
    by (simp add: length_fmt_02d)
  with r3 have h: "fmt_02d (hour a) = fmt_02d (hour b)"
    and mi: "fmt_02d (minute a) = fmt_02d (minute b)"
    by simp_all
  have "day a = day b"
    using arg_cong [OF d, of digits_value] by simp
  moreover have "month a = month b"
    using mois_inj [OF ma mb m] valid_datetime_bounds(2) [OF assms(1)]
      valid_datetime_bounds(2) [OF assms(2)] by arith
  moreover have "year a = year b"
    using arg_cong [OF y, of digits_value] by (simp add: digits_value_str_nat)
  moreover have "hour a = hour b"
    using arg_cong [OF h, of digits_value] by simp
  moreover have "minute a = minute b"
    using arg_cong [OF mi, of digits_value] by simp
  ultimately show ?thesis
    by simp
qed

lemma strftime_stamp_parts:
  assumes "valid_datetime a" and "valid_datetime b" and "strftime_stamp a = strftime_stamp b"
  shows "a = b"
proof -
  have la: "length (fmt_04d (year a)) = 4" "length (fmt_02d (month a)) = 2"
    "length (fmt_02d (day a)) = 2" "length (fmt_02d (hour a)) = 2"
    "length (fmt_02d (minute a)) = 2" "length (fmt_02d (second a)) = 2"
    using valid_datetime_bounds [OF assms(1)]
    by (simp_all add: length_fmt_02d length_fmt_04d)
  have lb: "length (fmt_04d (year b)) = 4" "length (fmt_02d (month b)) = 2"
    "length (fmt_02d (day b)) = 2" "length (fmt_02d (hour b)) = 2"
    "length (fmt_02d (minute b)) = 2" "length (fmt_02d (second b)) = 2"
    using valid_datetime_bounds [OF assms(2)]
    by (simp_all add: length_fmt_02d length_fmt_04d)
  from assms(3) la lb
  have "fmt_04d (year a) = fmt_04d (year b) \<and> fmt_02d (month a) = fmt_02d (month b)
      \<and> fmt_02d (day a) = fmt_02d (day b) \<and> fmt_02d (hour a) = fmt_02d (hour b)
      \<and> fmt_02d (minute a) = fmt_02d (minute b) \<and> fmt_02d (second a) = fmt_02d (second b)"
    by (simp add: strftime_stamp_def)
  then have "year a = year b \<and> month a = month b \<and> day a = day b \<and> hour a = hour b
      \<and> minute a = minute b \<and> second a = second b"
    by (metis digits_value_fmt)
  then show ?thesis
    by simp
qed

lemma local_name_minute:
  assumes "valid_datetime a" and "valid_datetime b"
  shows "local_name a = local_name b \<longleftrightarrow> a\<lparr>second := 0\<rparr> = b\<lparr>second := 0\<rparr>"
proof
  assume "local_name a = local_name b"
  from local_name_parts [OF assms this] show "a\<lparr>second := 0\<rparr> = b\<lparr>second := 0\<rparr>"
    by (cases a, cases b) simp
next
  assume "a\<lparr>second := 0\<rparr> = b\<lparr>second := 0\<rparr>"
  then have "year a = year b \<and> month a = month b \<and> day a = day b \<and> hour a = hour b
      \<and> minute a = minute b"
    by (cases a, cases b) simp
  then show "local_name a = local_name b"
    by (simp add: local_name_def weekday_def)
qed

text \<open>
  Claim C9, as the code has it.  The name of the archive is written from the UTC time down
  to the second: two cycles of a bot give the same archive name only when their UTC times
  are the same to the second.  The name of the local folder is written from the local time
  down to the minute only: two cycles give the same folder exactly when their local times
  agree up to the minute, whatever the seconds.
\<close>

theorem cycle_names_resolution:
  assumes "valid_datetime (now e1)" and "valid_datetime (now e2)"
    and "valid_datetime (utcnow e1)" and "valid_datetime (utcnow e2)"
  shows "(last (cycle_zip self e1) = last (cycle_zip self e2) \<longleftrightarrow> utcnow e1 = utcnow e2)
    \<and> (cycle_folder self e1 = cycle_folder self e2
         \<longleftrightarrow> (now e1)\<lparr>second := 0\<rparr> = (now e2)\<lparr>second := 0\<rparr>)"
proof
  show "last (cycle_zip self e1) = last (cycle_zip self e2) \<longleftrightarrow> utcnow e1 = utcnow e2"
    using strftime_stamp_parts [OF assms(3,4)]
    by (auto simp: cycle_zip_def zip_name_def)
next
  show "cycle_folder self e1 = cycle_folder self e2
      \<longleftrightarrow> (now e1)\<lparr>second := 0\<rparr> = (now e2)\<lparr>second := 0\<rparr>"
    using local_name_minute [OF assms(1,2)] by (simp add: cycle_folder_def)
qed

lemma valid_sample_times:
  "valid_datetime (now env0)" "valid_datetime (utcnow env0)"
  "valid_datetime (now env_later)" "valid_datetime (utcnow env_later)"
  "valid_datetime (now env_same_minute)" "valid_datetime (utcnow env_same_minute)"
  by (simp_all add: valid_datetime_def env0_def env_later_def env_same_minute_def
      days_in_month_def)

text \<open>
  Claim C9 on the sample bot: a cycle at 14:05:09 local time (13:05:09 UTC) and a cycle
  at 14:06:09 local time (13:05:10 UTC) have distinct folders and distinct archive names.
\<close>

theorem cycle_names_resolution_witness:
  "valid_datetime (now env0) \<and> valid_datetime (now env_later)
   \<and> valid_datetime (utcnow env0) \<and> valid_datetime (utcnow env_later)
   \<and> utcnow env0 \<noteq> utcnow env_later
   \<and> last (cycle_zip bot0 env0) \<noteq> last (cycle_zip bot0 env_later)
   \<and> (now env0)\<lparr>second := 0\<rparr> \<noteq> (now env_later)\<lparr>second := 0\<rparr>
   \<and> cycle_folder bot0 env0 \<noteq> cycle_folder bot0 env_later"
proof -
  have a: "utcnow env0 \<noteq> utcnow env_later"
    by (simp add: env_later_def env0_def)
  have b: "(now env0)\<lparr>second := 0\<rparr> \<noteq> (now env_later)\<lparr>second := 0\<rparr>"
    by (simp add: env_later_def env0_def)
  from cycle_names_resolution [OF valid_sample_times(1,3,2,4), of bot0] a b
    valid_sample_times
  show ?thesis
    by simp
qed

text \<open>
  Claim C9 as the specification has it does not hold for the local folder.  The cycles at
  14:05:09 and at 14:05:10 start at distinct seconds and have one and the same folder,
  \<open>mardi-03-novembre-2026-14h05\<close>.
\<close>

theorem folder_names_collide_counterexample:
  "valid_datetime (now env0) \<and> valid_datetime (now env_same_minute)
   \<and> second (now env0) = 9 \<and> second (now env_same_minute) = 10
   \<and> cycle_folder bot0 env0 = [''backup'', ''Bot'', ''mardi-03-novembre-2026-14h05'']
   \<and> cycle_folder bot0 env_same_minute = [''backup'', ''Bot'', ''mardi-03-novembre-2026-14h05'']"
proof -
  have "local_name (now env_same_minute) = local_name (now env0)"
    by (simp add: local_name_def weekday_def env_same_minute_def)
  then have "cycle_folder bot0 env_same_minute = cycle_folder bot0 env0"
    by (simp add: cycle_folder_def)
  moreover have "second (now env0) = 9" "second (now env_same_minute) = 10"
    by (simp_all add: env0_def env_same_minute_def)
  ultimately show ?thesis
    using valid_sample_times cycle_folder_env0 local_name_env0 by simp
qed

end
